theory Spec2Isabelle
  imports Complex_Main "HOL-Library.Multiset"
begin

section \<open>JavaScript values used by the models\<close>

text \<open>
  A thrown \<^verbatim>\<open>Error(message)\<close> is a value carrying the message. Finite numbers are
  real numbers (rounding of IEEE doubles is not modelled); the results of a division by
  zero are kept apart from the finite numbers, as JavaScript does: \<^verbatim>\<open>x / 0\<close> is an
  infinity or \<^verbatim>\<open>NaN\<close>, never a finite number. Every zero is taken as \<^verbatim>\<open>+0\<close>, which
  is what the divisors of this code are (lengths, counts and sums of squares).
\<close>

datatype error = Error string

datatype jsnum = Num real | PosInf | NegInf | NaN

fun js_neg :: "jsnum \<Rightarrow> jsnum" where
  "js_neg (Num a) = Num (- a)"
| "js_neg PosInf = NegInf"
| "js_neg NegInf = PosInf"
| "js_neg NaN = NaN"

fun js_add :: "jsnum \<Rightarrow> jsnum \<Rightarrow> jsnum" where
  "js_add (Num a) (Num b) = Num (a + b)"
| "js_add NaN _ = NaN"
| "js_add _ NaN = NaN"
| "js_add PosInf NegInf = NaN"
| "js_add NegInf PosInf = NaN"
| "js_add PosInf _ = PosInf"
| "js_add _ PosInf = PosInf"
| "js_add NegInf _ = NegInf"
| "js_add _ NegInf = NegInf"

definition js_sub :: "jsnum \<Rightarrow> jsnum \<Rightarrow> jsnum" where
  "js_sub a b = js_add a (js_neg b)"

definition js_inf :: "bool \<Rightarrow> jsnum" where
  "js_inf positive = (if positive then PosInf else NegInf)"

fun js_mul :: "jsnum \<Rightarrow> jsnum \<Rightarrow> jsnum" where
  "js_mul (Num a) (Num b) = Num (a * b)"
| "js_mul NaN _ = NaN"
| "js_mul _ NaN = NaN"
| "js_mul (Num a) PosInf = (if a = 0 then NaN else js_inf (0 < a))"
| "js_mul (Num a) NegInf = (if a = 0 then NaN else js_inf (a < 0))"
| "js_mul PosInf (Num b) = (if b = 0 then NaN else js_inf (0 < b))"
| "js_mul NegInf (Num b) = (if b = 0 then NaN else js_inf (b < 0))"
| "js_mul PosInf PosInf = PosInf"
| "js_mul NegInf NegInf = PosInf"
| "js_mul PosInf NegInf = NegInf"
| "js_mul NegInf PosInf = NegInf"

fun js_div :: "jsnum \<Rightarrow> jsnum \<Rightarrow> jsnum" where
  "js_div (Num a) (Num b) =
     (if b \<noteq> 0 then Num (a / b) else if a = 0 then NaN else js_inf (0 < a))"
| "js_div NaN _ = NaN"
| "js_div _ NaN = NaN"
| "js_div (Num a) _ = Num 0"
| "js_div PosInf (Num b) = js_inf (0 \<le> b)"
| "js_div NegInf (Num b) = js_inf (b < 0)"
| "js_div PosInf PosInf = NaN"
| "js_div PosInf NegInf = NaN"
| "js_div NegInf PosInf = NaN"
| "js_div NegInf NegInf = NaN"

fun js_sqrt :: "jsnum \<Rightarrow> jsnum" where
  "js_sqrt (Num a) = (if a < 0 then NaN else Num (sqrt a))"
| "js_sqrt PosInf = PosInf"
| "js_sqrt _ = NaN"

fun js_abs :: "jsnum \<Rightarrow> jsnum" where
  "js_abs (Num a) = Num \<bar>a\<bar>"
| "js_abs NaN = NaN"
| "js_abs _ = PosInf"

fun js_le :: "jsnum \<Rightarrow> jsnum \<Rightarrow> bool" where
  "js_le (Num a) (Num b) = (a \<le> b)"
| "js_le NaN _ = False"
| "js_le _ NaN = False"
| "js_le NegInf _ = True"
| "js_le _ PosInf = True"
| "js_le (Num a) NegInf = False"
| "js_le PosInf (Num b) = False"
| "js_le PosInf NegInf = False"

definition js_max :: "jsnum \<Rightarrow> jsnum \<Rightarrow> jsnum" where
  "js_max a b = (if a = NaN \<or> b = NaN then NaN else if js_le a b then b else a)"

definition js_min :: "jsnum \<Rightarrow> jsnum \<Rightarrow> jsnum" where
  "js_min a b = (if a = NaN \<or> b = NaN then NaN else if js_le a b then a else b)"

text \<open>\<^verbatim>\<open>null\<close> in arithmetic is the number 0.\<close>

definition num_of_null :: "real option \<Rightarrow> real" where
  "num_of_null v = (case v of None \<Rightarrow> 0 | Some x \<Rightarrow> x)"

text \<open>\<^verbatim>\<open>Math.max(0, Math.min(1, r2))\<close>, shared by the two \<^verbatim>\<open>getStats\<close>.\<close>

definition clamp01 :: "jsnum \<Rightarrow> jsnum" where
  "clamp01 r2 = js_max (Num 0) (js_min (Num 1) r2)"

fun js_lt :: "jsnum \<Rightarrow> jsnum \<Rightarrow> bool" where
  "js_lt (Num a) (Num b) = (a < b)"
| "js_lt NaN _ = False"
| "js_lt _ NaN = False"
| "js_lt PosInf _ = False"
| "js_lt _ NegInf = False"
| "js_lt (Num a) PosInf = True"
| "js_lt NegInf (Num b) = True"
| "js_lt NegInf PosInf = True"

text \<open>
  Reading a property of \<^verbatim>\<open>undefined\<close> or \<^verbatim>\<open>null\<close>, and calling what is not a function,
  throw a \<^verbatim>\<open>TypeError\<close>.
\<close>

definition TypeError :: error where
  "TypeError = Error ''TypeError''"

text \<open>
  Mapping a function that may throw over an array, and a \<^verbatim>\<open>forEach\<close> whose body updates a
  state and may throw: the first error ends the loop.
\<close>

fun map_throwing :: "('a \<Rightarrow> error + 'b) \<Rightarrow> 'a list \<Rightarrow> error + 'b list" where
  "map_throwing h [] = Inr []"
| "map_throwing h (x # xs) =
     (case h x of
        Inl e \<Rightarrow> Inl e
      | Inr v \<Rightarrow> (case map_throwing h xs of Inl e \<Rightarrow> Inl e | Inr vs \<Rightarrow> Inr (v # vs)))"

fun fold_throwing :: "('s \<Rightarrow> 'a \<Rightarrow> error + 's) \<Rightarrow> 's \<Rightarrow> 'a list \<Rightarrow> error + 's" where
  "fold_throwing h s [] = Inr s"
| "fold_throwing h s (x # xs) =
     (case h s x of Inl e \<Rightarrow> Inl e | Inr s1 \<Rightarrow> fold_throwing h s1 xs)"

subsection \<open>Objects used as dictionaries\<close>

text \<open>
  The models keep their tallies, groups and branches in plain objects created by \<^verbatim>\<open>{}\<close>.
  Such an object is the list of its own properties in the order of their creation, and it
  inherits the properties of \<^verbatim>\<open>Object.prototype\<close>, whose names are \<open>proto_names\<close>. Reading
  \<^verbatim>\<open>obj[k]\<close> finds an own property first, then an inherited one: a built-in function, or
  for \<^verbatim>\<open>__proto__\<close> the prototype object itself, which all are truthy and are not numbers.
  Otherwise the value read is \<^verbatim>\<open>undefined\<close>.
\<close>

definition proto_names :: "string list" where
  "proto_names =
     [''constructor'', ''__defineGetter__'', ''__defineSetter__'', ''hasOwnProperty'',
      ''__lookupGetter__'', ''__lookupSetter__'', ''isPrototypeOf'', ''propertyIsEnumerable'',
      ''toString'', ''valueOf'', ''__proto__'', ''toLocaleString'']"

datatype 'v lookup = Own 'v | Inherited | Missing

definition js_get :: "(string \<times> 'v) list \<Rightarrow> string \<Rightarrow> 'v lookup" where
  "js_get obj k =
     (case map_of obj k of
        Some v \<Rightarrow> Own v
      | None \<Rightarrow> if k \<in> set proto_names then Inherited else Missing)"

text \<open>Replacing the value of a key in place; a new key goes last.\<close>

fun upsert :: "'k \<Rightarrow> ('v option \<Rightarrow> 'v) \<Rightarrow> ('k \<times> 'v) list \<Rightarrow> ('k \<times> 'v) list" where
  "upsert k f [] = [(k, f None)]"
| "upsert k f ((k', v) # kvs) =
     (if k' = k then (k', f (Some v)) # kvs else (k', v) # upsert k f kvs)"

text \<open>
  The assignment \<^verbatim>\<open>obj[k] = v\<close>. Under the key \<^verbatim>\<open>__proto__\<close> it runs the setter of
  \<^verbatim>\<open>Object.prototype\<close>, which creates no property and ignores a value that is a number or
  a string. (It would take an object as the new prototype; no assignment of these models
  comes to that, as is noted where they store objects.)
\<close>

definition js_put :: "string \<Rightarrow> 'v \<Rightarrow> (string \<times> 'v) list \<Rightarrow> (string \<times> 'v) list" where
  "js_put k v obj = (if k = ''__proto__'' then obj else upsert k (\<lambda>_. v) obj)"

text \<open>
  \<^verbatim>\<open>Object.entries\<close>, \<^verbatim>\<open>Object.values\<close> and \<^verbatim>\<open>Object.keys\<close> list the own properties whose
  key is an array index first, in ascending numeric order, and then the others in the order
  of their creation. An array index is the decimal numeral, without leading zeros, of an
  integer below \<^verbatim>\<open>2 ** 32 - 1\<close>.
\<close>

definition is_digit :: "char \<Rightarrow> bool" where
  "is_digit c = (c \<in> set ''0123456789'')"

definition digit_value :: "char \<Rightarrow> nat" where
  "digit_value c = length (takeWhile (\<lambda>d. d \<noteq> c) ''0123456789'')"

definition index_value :: "string \<Rightarrow> nat" where
  "index_value s = foldl (\<lambda>n c. 10 * n + digit_value c) 0 s"

definition is_index :: "string \<Rightarrow> bool" where
  "is_index s =
     (s \<noteq> [] \<and> list_all is_digit s \<and> (if hd s = CHR ''0'' then length s = 1 else True)
      \<and> index_value s < 4294967295)"

definition js_entries :: "(string \<times> 'v) list \<Rightarrow> (string \<times> 'v) list" where
  "js_entries obj =
     sort_key (\<lambda>(k, v). index_value k) (filter (\<lambda>(k, v). is_index k) obj)
     @ filter (\<lambda>(k, v). \<not> is_index k) obj"

text \<open>
  A tally holds numbers, but \<^verbatim>\<open>(obj[k] || 0) + x\<close> on an inherited property adds a number to
  a function or an object, which gives a string that denotes no number, and adding to that
  string gives such a string again: \<open>Junk\<close>. In arithmetic and comparisons it is \<^verbatim>\<open>NaN\<close>.
\<close>

datatype 'a or_junk = Val 'a | Junk

text \<open>\<^verbatim>\<open>counts[k] = (counts[k] || 0) + 1\<close>.\<close>

definition bump :: "string \<Rightarrow> (string \<times> nat or_junk) list \<Rightarrow> (string \<times> nat or_junk) list" where
  "bump k counts =
     js_put k (case js_get counts k of
                 Own (Val n) \<Rightarrow> Val (n + 1)
               | Own Junk \<Rightarrow> Junk
               | Inherited \<Rightarrow> Junk
               | Missing \<Rightarrow> Val 1)
       counts"

text \<open>
  \<^verbatim>\<open>entries.sort((a, b) => b[1] - a[1])\<close> on the entries of a tally: a stable sort by
  descending count. Where a count is no number the differences are \<^verbatim>\<open>NaN\<close>, the comparison
  is inconsistent and the order of the result is left to the engine, which is the argument
  \<open>engine\<close>.
\<close>

type_synonym engine_sort = "(string \<times> nat or_junk) list \<Rightarrow> (string \<times> nat or_junk) list"

definition count_of :: "nat or_junk \<Rightarrow> nat" where
  "count_of c = (case c of Val n \<Rightarrow> n | Junk \<Rightarrow> 0)"

definition by_count_desc :: "engine_sort \<Rightarrow> (string \<times> nat or_junk) list \<Rightarrow> (string \<times> nat or_junk) list" where
  "by_count_desc engine entries =
     (if list_all (\<lambda>(k, c). c \<noteq> Junk) entries
      then sort_key (\<lambda>(k, c). - int (count_of c)) entries
      else engine entries)"

section \<open>Holt's exponential smoothing\<close>

record HoltForecaster =
  alpha :: real
  beta :: real
  level :: "real option"
  trend :: "real option"
  fitted :: "real list"
  residuals :: "real list"
  trainData :: "real list"

definition HoltForecaster_new :: "real option \<Rightarrow> real option \<Rightarrow> HoltForecaster" where
  "HoltForecaster_new a b =
     \<lparr>alpha = (case a of None \<Rightarrow> 3 / 10 | Some x \<Rightarrow> x),
      beta = (case b of None \<Rightarrow> 1 / 10 | Some x \<Rightarrow> x),
      level = None, trend = None, fitted = [], residuals = [], trainData = []\<rparr>"

text \<open>
  One pass of the smoothing loop for the observation \<open>v = values[i]\<close>; the loop state is
  (level, trend, fitted, residuals).
\<close>

definition holt_step ::
  "real \<Rightarrow> real \<Rightarrow> real \<times> real \<times> real list \<times> real list \<Rightarrow> real
     \<Rightarrow> real \<times> real \<times> real list \<times> real list" where
  "holt_step a b s v =
     (case s of (prevLevel, prevTrend, fs, rs) \<Rightarrow>
        let lv = a * v + (1 - a) * (prevLevel + prevTrend);
            tr = b * (lv - prevLevel) + (1 - b) * prevTrend;
            f = prevLevel + prevTrend
        in (lv, tr, fs @ [f], rs @ [v - f]))"

definition HoltForecaster_fit :: "HoltForecaster \<Rightarrow> real list \<Rightarrow> error + HoltForecaster" where
  "HoltForecaster_fit m vals =
     (if length vals < 2 then Inl (Error ''Need at least 2 data points'')
      else
        let l0 = vals ! 0;
            t0 = vals ! 1 - vals ! 0;
            (lv, tr, fs, rs) = foldl (holt_step (alpha m) (beta m)) (l0, t0, [l0], [vals ! 0 - l0])
                                 (drop 1 vals)
        in Inr (m\<lparr>trainData := vals, level := Some lv, trend := Some tr,
                   fitted := fs, residuals := rs\<rparr>))"

text \<open>
  The read-only methods return their result together with the forecaster they leave behind,
  so that a write to a field would show. The number of steps is a count; a call that leaves
  out \<^verbatim>\<open>steps\<close> or \<^verbatim>\<open>confidence\<close> passes 6 and 0.95.
\<close>

definition HoltForecaster_forecast ::
  "HoltForecaster \<Rightarrow> nat \<Rightarrow> (error + real list) \<times> HoltForecaster" where
  "HoltForecaster_forecast m steps =
     (case level m of
        None \<Rightarrow> (Inl (Error ''Model not fitted''), m)
      | Some lv \<Rightarrow>
          (Inr (map (\<lambda>i. max 0 (lv + real i * num_of_null (trend m))) [1..<Suc steps]), m))"

record interval =
  prediction :: real
  lower :: jsnum
  upper :: jsnum

definition z_score :: "real \<Rightarrow> real" where
  "z_score confidence =
     (if confidence = 95 / 100 then 196 / 100
      else if confidence = 9 / 10 then 1645 / 1000 else 196 / 100)"

definition getConfidenceIntervals ::
  "HoltForecaster \<Rightarrow> nat \<Rightarrow> real \<Rightarrow> (error + interval list) \<times> HoltForecaster" where
  "getConfidenceIntervals m steps confidence =
     (case HoltForecaster_forecast m steps of
        (Inl e, m1) \<Rightarrow> (Inl e, m1)
      | (Inr predictions, m1) \<Rightarrow>
          let mse = js_div (Num (foldl (\<lambda>s r. s + r * r) 0 (residuals m1)))
                           (Num (real (length (residuals m1))));
              se = js_sqrt mse;
              z = z_score confidence
          in (Inr (map (\<lambda>(pred, i).
                     let uncertainty = js_mul se (Num (sqrt (1 + (real i + 1) * (1 / 10))))
                     in \<lparr>prediction = pred,
                         lower = js_max (Num 0) (js_sub (Num pred) (js_mul (Num z) uncertainty)),
                         upper = js_add (Num pred) (js_mul (Num z) uncertainty)\<rparr>)
                   (zip predictions [0..<length predictions])), m1))"

record holt_stats =
  r2 :: jsnum
  rmse :: real
  mape :: jsnum
  samples :: nat
  stat_alpha :: real
  stat_beta :: real
  lastLevel :: "real option"
  lastTrend :: "real option"

text \<open>
  The sum of \<^verbatim>\<open>Math.abs(this.residuals[i] / v)\<close> over the non-zero observations; a
  residual that is missing at index \<open>i\<close> is \<^verbatim>\<open>undefined\<close> and makes the sum \<^verbatim>\<open>NaN\<close>.
\<close>

fun mape_sum :: "jsnum \<Rightarrow> real list \<Rightarrow> real list \<Rightarrow> jsnum" where
  "mape_sum s [] rs = s"
| "mape_sum s (v # vs) rs =
     mape_sum (if v = 0 then s
               else js_add s (case rs of [] \<Rightarrow> NaN | r # _ \<Rightarrow> js_abs (js_div (Num r) (Num v))))
       vs (tl rs)"

definition HoltForecaster_getStats :: "HoltForecaster \<Rightarrow> holt_stats option \<times> HoltForecaster" where
  "HoltForecaster_getStats m =
     (if length (trainData m) = 0 then (None, m)
      else
        let vals = trainData m;
            mean = foldl (+) 0 vals / real (length vals);
            ssRes = foldl (\<lambda>s r. s + r * r) 0 (residuals m);
            ssTot = foldl (\<lambda>s v. s + (v - mean) ^ 2) 0 vals
        in (Some \<lparr>r2 = clamp01 (js_sub (Num 1) (js_div (Num ssRes) (Num ssTot))),
                   rmse = sqrt (ssRes / real (length vals)),
                   mape = js_mul (js_div (mape_sum (Num 0) vals (residuals m))
                                         (Num (real (length (filter (\<lambda>v. v \<noteq> 0) vals)))))
                                 (Num 100),
                   samples = length vals,
                   stat_alpha = alpha m, stat_beta = beta m,
                   lastLevel = level m, lastTrend = trend m\<rparr>, m))"

text \<open>
  The standard error that \<^verbatim>\<open>getConfidenceIntervals\<close> takes from the residuals of a fitted
  forecaster; the width of an interval, and its part above the prediction.
\<close>

definition ci_se :: "HoltForecaster \<Rightarrow> real" where
  "ci_se m = sqrt (foldl (\<lambda>s r. s + r * r) 0 (residuals m) / real (length (residuals m)))"

definition interval_width :: "interval \<Rightarrow> jsnum" where
  "interval_width e = js_sub (upper e) (lower e)"

definition upper_margin :: "interval \<Rightarrow> jsnum" where
  "upper_margin e = js_sub (upper e) (Num (prediction e))"

text \<open>
  The forecaster that \<^verbatim>\<open>fit\<close> makes of the series 3000, 2500, 2100, 1533 with the default
  smoothing parameters.
\<close>

definition holt_example :: HoltForecaster where
  "holt_example =
     \<lparr>alpha = 3 / 10, beta = 1 / 10, level = Some 1533, trend = Some (- 497),
      fitted = [3000, 2500, 2000, 1533], residuals = [0, 0, 100, 0],
      trainData = [3000, 2500, 2100, 1533]\<rparr>"

text \<open>
  The calls a client can make on a forecaster once it is fitted, other than \<^verbatim>\<open>fit\<close>
  itself, and the forecaster left behind by a sequence of them.
\<close>

datatype holt_query = Forecast nat | Intervals nat real | Stats

datatype holt_answer =
  Forecasted "error + real list"
| Intervalled "error + interval list"
| Statted "holt_stats option"

fun holt_call :: "HoltForecaster \<Rightarrow> holt_query \<Rightarrow> holt_answer \<times> HoltForecaster" where
  "holt_call m (Forecast steps) =
     (case HoltForecaster_forecast m steps of (r, m1) \<Rightarrow> (Forecasted r, m1))"
| "holt_call m (Intervals steps confidence) =
     (case getConfidenceIntervals m steps confidence of (r, m1) \<Rightarrow> (Intervalled r, m1))"
| "holt_call m Stats =
     (case HoltForecaster_getStats m of (r, m1) \<Rightarrow> (Statted r, m1))"

fun holt_calls :: "HoltForecaster \<Rightarrow> holt_query list \<Rightarrow> HoltForecaster" where
  "holt_calls m [] = m"
| "holt_calls m (q # qs) = holt_calls (snd (holt_call m q)) qs"

section \<open>ID3 decision tree\<close>

text \<open>
  A row is an object with its columns as own properties, whose values are category strings.
  Reading a column the row does not have gives \<^verbatim>\<open>undefined\<close>, unless the column is named
  like a property of \<^verbatim>\<open>Object.prototype\<close>, which the row inherits. A value used as a key
  is its string: \<^verbatim>\<open>undefined\<close> is ``undefined'', a built-in function is its source text as
  Node and Chrome print it, and the prototype object is ``[object Object]''.
\<close>

type_synonym row = "(string \<times> string) list"

definition cell :: "row \<Rightarrow> string \<Rightarrow> string lookup" where
  "cell r c = js_get r c"

definition member_text :: "string \<Rightarrow> string" where
  "member_text c =
     (if c = ''__proto__'' then ''[object Object]''
      else ''function '' @ (if c = ''constructor'' then ''Object'' else c)
           @ ''() { [native code] }'')"

definition cell_key :: "string \<Rightarrow> string lookup \<Rightarrow> string" where
  "cell_key c v =
     (case v of Own s \<Rightarrow> s | Missing \<Rightarrow> ''undefined'' | Inherited \<Rightarrow> member_text c)"

text \<open>\<^verbatim>\<open>[...new Set(xs)]\<close>: the distinct elements in order of first appearance.\<close>

definition js_unique :: "'a list \<Rightarrow> 'a list" where
  "js_unique xs = foldl (\<lambda>seen x. if x \<in> set seen then seen else seen @ [x]) [] xs"

text \<open>
  The loop \<^verbatim>\<open>counts[label] = (counts[label] || 0) + 1\<close> that \<^verbatim>\<open>calculateEntropy\<close>,
  \<^verbatim>\<open>getMajorityClass\<close> and \<^verbatim>\<open>getClassDistribution\<close> each start with.
\<close>

definition label_counts :: "row list \<Rightarrow> string \<Rightarrow> (string \<times> nat or_junk) list" where
  "label_counts data targetColumn =
     foldl (\<lambda>counts r. bump (cell_key targetColumn (cell r targetColumn)) counts) [] data"

text \<open>A count that is no number gives the probability \<^verbatim>\<open>NaN\<close>, which is not above 0.\<close>

definition calculateEntropy :: "row list \<Rightarrow> string \<Rightarrow> real" where
  "calculateEntropy data targetColumn =
     (let total = length data
      in if total = 0 then 0
         else foldl (\<lambda>entropy cnt.
                       case cnt of
                         Junk \<Rightarrow> entropy
                       | Val n \<Rightarrow>
                           let probability = real n / real total
                           in if probability > 0 then entropy - probability * log 2 probability
                              else entropy)
                0 (map snd (js_entries (label_counts data targetColumn))))"

text \<open>
  \<^verbatim>\<open>if (!groups[value]) groups[value] = []; groups[value].push(row)\<close>: an inherited
  property is truthy and has no \<^verbatim>\<open>push\<close>.
\<close>

definition push_row ::
  "string \<Rightarrow> (string \<times> row list) list \<Rightarrow> row \<Rightarrow> error + (string \<times> row list) list" where
  "push_row feature groups r =
     (let k = cell_key feature (cell r feature)
      in case js_get groups k of
           Own rs \<Rightarrow> Inr (upsert k (\<lambda>_. rs @ [r]) groups)
         | Missing \<Rightarrow> Inr (js_put k [r] groups)
         | Inherited \<Rightarrow> Inl TypeError)"

definition group_rows :: "row list \<Rightarrow> string \<Rightarrow> error + (string \<times> row list) list" where
  "group_rows data feature = fold_throwing (push_row feature) [] data"

definition calculateInformationGain :: "row list \<Rightarrow> string \<Rightarrow> string \<Rightarrow> error + real" where
  "calculateInformationGain data feature targetColumn =
     (let totalEntropy = calculateEntropy data targetColumn;
          total = length data
      in case group_rows data feature of
           Inl e \<Rightarrow> Inl e
         | Inr groups \<Rightarrow>
             Inr (totalEntropy
                  - foldl (\<lambda>w grp. w + real (length grp) / real total
                                          * calculateEntropy grp targetColumn)
                      0 (map snd (js_entries groups))))"

text \<open>
  The running best is \<open>None\<close> while \<^verbatim>\<open>bestFeature\<close> is \<^verbatim>\<open>null\<close> and \<^verbatim>\<open>bestGain\<close> is
  \<^verbatim>\<open>-Infinity\<close>, which every gain exceeds.
\<close>

definition better_feature ::
  "row list \<Rightarrow> string \<Rightarrow> (string \<times> real) option \<Rightarrow> string \<Rightarrow> error + (string \<times> real) option" where
  "better_feature data targetColumn best feature =
     (case calculateInformationGain data feature targetColumn of
        Inl e \<Rightarrow> Inl e
      | Inr gain \<Rightarrow>
          Inr (case best of
                 None \<Rightarrow> Some (feature, gain)
               | Some (bestFeature, bestGain) \<Rightarrow>
                   if gain > bestGain then Some (feature, gain) else best))"

definition findBestFeature ::
  "row list \<Rightarrow> string list \<Rightarrow> string \<Rightarrow> error + (string \<times> real) option" where
  "findBestFeature data features targetColumn =
     fold_throwing (better_feature data targetColumn) None features"

text \<open>
  The entries come in the order of \<^verbatim>\<open>Object.entries\<close>; a count that is no number exceeds
  nothing.
\<close>

definition getMajorityClass :: "row list \<Rightarrow> string \<Rightarrow> string option \<times> nat \<times> nat" where
  "getMajorityClass data targetColumn =
     (let (majorityClass, maxCount) =
            foldl (\<lambda>(mc, mx) (lbl, cnt).
                     case cnt of
                       Junk \<Rightarrow> (mc, mx)
                     | Val n \<Rightarrow> if n > mx then (Some lbl, n) else (mc, mx))
              (None, 0) (js_entries (label_counts data targetColumn))
      in (majorityClass, maxCount, length data))"

text \<open>
  The number that the string \<^verbatim>\<open>x.toFixed(1)\<close> denotes: the multiple of 1/10 nearest to
  \<open>x\<close>, the one further from 0 on a tie; for \<^verbatim>\<open>NaN\<close> the string is ``NaN''.
\<close>

definition toFixed1 :: "real \<Rightarrow> real" where
  "toFixed1 x = (if x < 0 then - (real_of_int \<lfloor>10 * (- x) + 1 / 2\<rfloor> / 10)
                 else real_of_int \<lfloor>10 * x + 1 / 2\<rfloor> / 10)"

record class_share =
  share_count :: "nat or_junk"
  percentage :: jsnum

text \<open>
  The labels stored here are own keys of \<open>counts\<close>, so none of them is \<^verbatim>\<open>__proto__\<close>.
\<close>

definition getClassDistribution :: "row list \<Rightarrow> string \<Rightarrow> (string \<times> class_share) list" where
  "getClassDistribution data targetColumn =
     (let counts = label_counts data targetColumn;
          total = length data
      in foldl (\<lambda>distribution (lbl, cnt).
                  js_put lbl \<lparr>share_count = cnt,
                              percentage = (case cnt of
                                              Junk \<Rightarrow> NaN
                                            | Val n \<Rightarrow> Num (toFixed1 (real n / real total * 100)))\<rparr>
                    distribution)
           [] (js_entries counts))"

datatype id3_tree =
  Leaf (leaf_label: "string option") (leaf_confidence: real) (leaf_samples: nat)
       (leaf_distribution: "(string \<times> class_share) list option")
| Node (node_feature: string) (node_gain: real) (node_samples: nat)
       (node_children: "(string \<times> id3_tree) list") (defaultPrediction: "string option")

text \<open>
  \<^verbatim>\<open>findBestFeature\<close> has grouped the rows by the feature that is chosen, so where
  \<^verbatim>\<open>buildTree\<close> comes to store the children no value of that feature is named like an
  inherited property, \<^verbatim>\<open>__proto__\<close> included. The children are built in the order of the
  values, and an error in one of them ends the call.
\<close>

function buildTree :: "row list \<Rightarrow> string list \<Rightarrow> string \<Rightarrow> nat \<Rightarrow> nat \<Rightarrow> error + id3_tree" where
  "buildTree data features targetColumn depth maxDepth =
     (if length data = 0 then Inr (Leaf (Some ''Unknown'') 0 0 None)
      else
        let majority = getMajorityClass data targetColumn;
            majorityClass = fst majority;
            total = snd (snd majority);
            confidence = real (fst (snd majority)) / real total
        in if confidence = 1 \<or> depth \<ge> maxDepth \<or> length features = 0
           then Inr (Leaf majorityClass confidence total
                       (Some (getClassDistribution data targetColumn)))
           else
             case findBestFeature data features targetColumn of
               Inl e \<Rightarrow> Inl e
             | Inr None \<Rightarrow> Inr (Leaf majorityClass confidence total
                                   (Some (getClassDistribution data targetColumn)))
             | Inr (Some (bestFeature, gain)) \<Rightarrow>
                 if gain \<le> 0
                 then Inr (Leaf majorityClass confidence total
                             (Some (getClassDistribution data targetColumn)))
                 else
                   let featureValues = js_unique (map (\<lambda>r. cell r bestFeature) data);
                       remainingFeatures = filter (\<lambda>f. f \<noteq> bestFeature) features
                   in case map_throwing
                             (\<lambda>v. case buildTree (filter (\<lambda>r. cell r bestFeature = v) data)
                                         remainingFeatures targetColumn (depth + 1) maxDepth of
                                     Inl e \<Rightarrow> Inl e
                                   | Inr subtree \<Rightarrow> Inr (cell_key bestFeature v, subtree))
                             featureValues of
                        Inl e \<Rightarrow> Inl e
                      | Inr branches \<Rightarrow>
                          Inr (Node bestFeature gain total
                                 (foldl (\<lambda>ch (k, subtree). js_put k subtree ch) [] branches)
                                 majorityClass))"
  by pat_completeness auto
termination
  by (relation "measure (\<lambda>(data, features, targetColumn, depth, maxDepth). maxDepth - depth)") auto

declare buildTree.simps [simp del]

record prediction_result =
  predicted :: "string option"
  confidence :: real
  distribution :: "(string \<times> class_share) list option"

text \<open>
  \<^verbatim>\<open>if (tree.children[featureValue])\<close> is true of a branch and of an inherited property
  alike; \<^verbatim>\<open>predict\<close> then goes on into what it has read, and in a function or in the
  prototype object it finds no \<^verbatim>\<open>children\<close> to read from.
\<close>

function predict :: "id3_tree \<Rightarrow> row \<Rightarrow> error + prediction_result" where
  "predict (Leaf lbl conf n dst) sample =
     Inr \<lparr>predicted = lbl, confidence = conf, distribution = dst\<rparr>"
| "predict (Node f g n ch dflt) sample =
     (case js_get ch (cell_key f (cell sample f)) of
        Own child \<Rightarrow> predict child sample
      | Inherited \<Rightarrow> Inl TypeError
      | Missing \<Rightarrow> Inr \<lparr>predicted = dflt, confidence = 1 / 2, distribution = Some []\<rparr>)"
  by pat_completeness auto
termination
proof (relation "measure (\<lambda>(t, sample). size t)")
  show "wf (measure (\<lambda>(t, sample). size t))" by simp
next
  fix f g n ch dflt sample child
  assume "js_get ch (cell_key f (cell sample f)) = Own (child :: id3_tree)"
  then have "map_of ch (cell_key f (cell sample f)) = Some child"
    by (simp add: js_get_def split: option.splits if_splits)
  then have "(cell_key f (cell sample f), child) \<in> set ch" by (rule map_of_SomeD)
  then have "size child < Suc (size_list (size_prod (\<lambda>_. 0) size) ch)"
    by (induction ch) auto
  then show "((child, sample), (Node f g n ch dflt, sample)) \<in> measure (\<lambda>(t, sample). size t)"
    by simp
qed

record topn_entry =
  entry_label :: "string option"
  entry_confidence :: jsnum

text \<open>
  The entries of the distribution, sorted by \<^verbatim>\<open>(a, b) => b.confidence - a.confidence\<close>: a
  stable sort by descending confidence, and the order the engine leaves, \<open>engine\<close>, where a
  confidence is \<^verbatim>\<open>NaN\<close>.
\<close>

definition number_of :: "jsnum \<Rightarrow> real" where
  "number_of x = (case x of Num a \<Rightarrow> a | _ \<Rightarrow> 0)"

definition predictTopN ::
  "(topn_entry list \<Rightarrow> topn_entry list) \<Rightarrow> id3_tree \<Rightarrow> row \<Rightarrow> nat \<Rightarrow> error + topn_entry list" where
  "predictTopN engine t sample n =
     (case predict t sample of
        Inl e \<Rightarrow> Inl e
      | Inr result \<Rightarrow>
          let single = [\<lparr>entry_label = predicted result,
                          entry_confidence = Num (confidence result * 100)\<rparr>]
          in case distribution result of
               None \<Rightarrow> Inr single
             | Some d \<Rightarrow>
                 if length d = 0 then Inr single
                 else
                   let entries = map (\<lambda>(lbl, sh). \<lparr>entry_label = Some lbl,
                                                    entry_confidence = percentage sh\<rparr>)
                                   (js_entries d)
                   in Inr (take n (if list_all (\<lambda>e. entry_confidence e \<noteq> NaN) entries
                                   then sort_key (\<lambda>e. - number_of (entry_confidence e)) entries
                                   else engine entries)))"

text \<open>
  \<^verbatim>\<open>xs.slice(start, end)\<close> for integer arguments: a negative index counts from the end,
  and both are cut to the array.
\<close>

definition js_rel_index :: "nat \<Rightarrow> int \<Rightarrow> nat" where
  "js_rel_index len k = (if k < 0 then nat (max (int len + k) 0) else min (nat k) len)"

definition js_slice :: "'a list \<Rightarrow> int \<Rightarrow> int \<Rightarrow> 'a list" where
  "js_slice xs start end =
     (let s = js_rel_index (length xs) start; e = js_rel_index (length xs) end
      in take (e - s) (drop s xs))"

text \<open>
  The order in which \<^verbatim>\<open>sort(() => Math.random() - 0.5)\<close> leaves the rows is the
  argument \<open>shuffle\<close>.
\<close>

definition trainTestSplit ::
  "('a list \<Rightarrow> 'a list) \<Rightarrow> 'a list \<Rightarrow> real \<Rightarrow> 'a list \<times> 'a list" where
  "trainTestSplit shuffle data testRatio =
     (let shuffled = shuffle data;
          splitIndex = \<lfloor>real (length data) * (1 - testRatio)\<rfloor>
      in (js_slice shuffled 0 splitIndex, js_slice shuffled splitIndex (int (length shuffled))))"

text \<open>
  \<^verbatim>\<open>result.prediction === row[targetColumn]\<close>: a label, or \<^verbatim>\<open>null\<close>, against what the
  row has in the column; only two equal strings are identical.
\<close>

definition label_matches :: "string option \<Rightarrow> string lookup \<Rightarrow> bool" where
  "label_matches p v = (case (p, v) of (Some a, Own b) \<Rightarrow> a = b | _ \<Rightarrow> False)"

definition count_correct :: "id3_tree \<Rightarrow> string \<Rightarrow> nat \<Rightarrow> row \<Rightarrow> error + nat" where
  "count_correct t targetColumn correct r =
     (case predict t r of
        Inl e \<Rightarrow> Inl e
      | Inr result \<Rightarrow>
          Inr (if label_matches (predicted result) (cell r targetColumn) then correct + 1
               else correct))"

definition calculateAccuracy :: "id3_tree \<Rightarrow> row list \<Rightarrow> string \<Rightarrow> error + jsnum" where
  "calculateAccuracy t testData targetColumn =
     (case fold_throwing (count_correct t targetColumn) 0 testData of
        Inl e \<Rightarrow> Inl e
      | Inr correct \<Rightarrow> Inr (js_div (Num (real correct)) (Num (real (length testData)))))"

text \<open>\<^verbatim>\<open>importance[feature] = (importance[feature] || 0) + gain * samples\<close>.\<close>

definition add_importance ::
  "string \<Rightarrow> real \<Rightarrow> (string \<times> real or_junk) list \<Rightarrow> (string \<times> real or_junk) list" where
  "add_importance feature x importance =
     js_put feature (case js_get importance feature of
                       Own (Val v) \<Rightarrow> Val ((if v = 0 then 0 else v) + x)
                     | Own Junk \<Rightarrow> Junk
                     | Inherited \<Rightarrow> Junk
                     | Missing \<Rightarrow> Val (0 + x))
       importance"

function getFeatureImportance ::
  "id3_tree \<Rightarrow> (string \<times> real or_junk) list \<Rightarrow> (string \<times> real or_junk) list" where
  "getFeatureImportance (Leaf lbl conf n dst) importance = importance"
| "getFeatureImportance (Node f g n ch dflt) importance =
     (let g1 = (if g = 0 then 0 else g);
          samples1 = (if n = 0 then 1 else n);
          importance1 = add_importance f (g1 * real samples1) importance
      in foldl (\<lambda>imp child. getFeatureImportance child imp) importance1
           (map snd (js_entries ch)))"
  by pat_completeness auto
termination
proof (relation "measure (\<lambda>(t, importance). size t)")
  show "wf (measure (\<lambda>(t, importance). size t))" by simp
next
  fix f :: string and g :: real and n :: nat and ch :: "(string \<times> id3_tree) list"
    and dflt :: "string option" and importance imp :: "(string \<times> real or_junk) list"
    and g1 :: real and samples1 :: nat and importance1 :: "(string \<times> real or_junk) list"
    and child :: id3_tree
  assume "child \<in> set (map snd (js_entries ch))"
  then obtain k where "(k, child) \<in> set (js_entries ch)" by auto
  then have "(k, child) \<in> set ch" by (auto simp: js_entries_def)
  then have "size child < Suc (size_list (size_prod (\<lambda>_. 0) size) ch)"
    by (induction ch) auto
  then show "((child, imp), (Node f g n ch dflt, importance)) \<in> measure (\<lambda>(t, importance). size t)"
    by simp
qed

record DecisionTreeClassifier =
  dt_maxDepth :: nat
  dt_tree :: "id3_tree option"
  dt_features :: "string list"
  dt_targetColumn :: "string option"
  dt_accuracy :: jsnum
  dt_featureImportance :: "(string \<times> jsnum) list"
  dt_trainSize :: nat
  dt_testSize :: nat

definition DecisionTreeClassifier_new :: "nat option \<Rightarrow> DecisionTreeClassifier" where
  "DecisionTreeClassifier_new md =
     \<lparr>dt_maxDepth = (case md of None \<Rightarrow> 5 | Some d \<Rightarrow> d), dt_tree = None, dt_features = [],
      dt_targetColumn = None, dt_accuracy = Num 0, dt_featureImportance = [], dt_trainSize = 0,
      dt_testSize = 0\<rparr>"

record train_result =
  result_accuracy :: jsnum
  result_trainSize :: nat
  result_testSize :: nat
  result_featureImportance :: "(string \<times> jsnum) list"

text \<open>
  \<^verbatim>\<open>Object.values(rawImportance).reduce((a, b) => a + b, 0)\<close>, where a sum with a string
  is a string, and the share \<^verbatim>\<open>totalImportance > 0 ? value / totalImportance : 0\<close> of a
  feature.
\<close>

definition total_importance :: "(string \<times> real or_junk) list \<Rightarrow> real or_junk" where
  "total_importance rawImportance =
     foldl (\<lambda>a b. case (a, b) of (Val x, Val y) \<Rightarrow> Val (x + y) | _ \<Rightarrow> Junk) (Val 0)
       (map snd (js_entries rawImportance))"

definition importance_share :: "real or_junk \<Rightarrow> real or_junk \<Rightarrow> jsnum" where
  "importance_share totalImportance v =
     (case totalImportance of
        Junk \<Rightarrow> Num 0
      | Val t \<Rightarrow> if t > 0 then (case v of Val x \<Rightarrow> Num (x / t) | Junk \<Rightarrow> NaN) else Num 0)"

text \<open>
  \<^verbatim>\<open>train\<close> returns its summary, or throws, and leaves the classifier with the fields it
  has written until then: the tree is stored as soon as it is built, before the accuracy is
  computed.
\<close>

definition DecisionTreeClassifier_train ::
  "(row list \<Rightarrow> row list) \<Rightarrow> DecisionTreeClassifier \<Rightarrow> row list \<Rightarrow> string list \<Rightarrow> string
     \<Rightarrow> (error + train_result) \<times> DecisionTreeClassifier" where
  "DecisionTreeClassifier_train shuffle m data feats target =
     (let (train, test) = trainTestSplit shuffle data (2 / 10);
          m1 = m\<lparr>dt_features := feats, dt_targetColumn := Some target,
                 dt_trainSize := length train, dt_testSize := length test\<rparr>
      in case buildTree train feats target 0 (dt_maxDepth m) of
           Inl e \<Rightarrow> (Inl e, m1)
         | Inr t \<Rightarrow>
             let m2 = m1\<lparr>dt_tree := Some t\<rparr>
             in case calculateAccuracy t test target of
                  Inl e \<Rightarrow> (Inl e, m2)
                | Inr acc \<Rightarrow>
                    let rawImportance = getFeatureImportance t [];
                        totalImportance = total_importance rawImportance;
                        imp = foldl (\<lambda>fi (f, v). js_put f (importance_share totalImportance v) fi)
                                [] (js_entries rawImportance)
                    in (Inr \<lparr>result_accuracy = acc, result_trainSize = length train,
                              result_testSize = length test, result_featureImportance = imp\<rparr>,
                        m2\<lparr>dt_accuracy := acc, dt_featureImportance := imp\<rparr>))"

definition DecisionTreeClassifier_predict ::
  "DecisionTreeClassifier \<Rightarrow> row \<Rightarrow> error + prediction_result" where
  "DecisionTreeClassifier_predict m sample =
     (case dt_tree m of
        None \<Rightarrow> Inl (Error ''Model not trained yet'')
      | Some t \<Rightarrow> predict t sample)"

definition DecisionTreeClassifier_predictTopN ::
  "(topn_entry list \<Rightarrow> topn_entry list) \<Rightarrow> DecisionTreeClassifier \<Rightarrow> row \<Rightarrow> nat option
     \<Rightarrow> error + topn_entry list" where
  "DecisionTreeClassifier_predictTopN engine m sample n =
     (case dt_tree m of
        None \<Rightarrow> Inl (Error ''Model not trained yet'')
      | Some t \<Rightarrow> predictTopN engine t sample (case n of None \<Rightarrow> 3 | Some k \<Rightarrow> k))"

text \<open>
  The nodes that \<^verbatim>\<open>predict\<close> visits for a sample, from the root down: from a decision
  node it goes on to the child stored under the sample's value of the node's feature.
\<close>

inductive visits :: "row \<Rightarrow> id3_tree \<Rightarrow> id3_tree \<Rightarrow> bool" for sample :: row where
  root: "visits sample t t"
| child: "visits sample t (Node f g n ch dflt)
            \<Longrightarrow> js_get ch (cell_key f (cell sample f)) = Own c
            \<Longrightarrow> visits sample t c"

code_pred visits .

text \<open>
  The structure the trees are meant to have. A node is a leaf when its \<^verbatim>\<open>type\<close> is
  \<^verbatim>\<open>'leaf'\<close>; its children are the entries of its \<^verbatim>\<open>children\<close> object, none for a leaf,
  which has no such property. \<open>depth\<close> is the depth of the node \<open>t\<close> itself.
\<close>

fun id3_is_leaf :: "id3_tree \<Rightarrow> bool" where
  "id3_is_leaf (Leaf lbl conf n dst) = True"
| "id3_is_leaf (Node f g n ch dflt) = False"

fun id3_children :: "id3_tree \<Rightarrow> (string \<times> id3_tree) list" where
  "id3_children (Leaf lbl conf n dst) = []"
| "id3_children (Node f g n ch dflt) = ch"

function tree_invariant :: "nat \<Rightarrow> nat \<Rightarrow> id3_tree \<Rightarrow> bool" where
  "tree_invariant maxDepth depth t =
     (depth \<le> maxDepth
      \<and> (id3_is_leaf t \<longleftrightarrow> id3_children t = [])
      \<and> (\<not> id3_is_leaf t \<longrightarrow>
            2 \<le> length (id3_children t) \<and> distinct (map fst (id3_children t)))
      \<and> (\<forall>c \<in> snd ` set (id3_children t). tree_invariant maxDepth (Suc depth) c))"
  by pat_completeness auto
termination
proof (relation "measure (\<lambda>(maxDepth, depth, t). size t)")
  show "wf (measure (\<lambda>(maxDepth, depth, t). size t))" by simp
next
  fix maxDepth depth :: nat and t c :: id3_tree
  assume "c \<in> snd ` set (id3_children t)"
  then obtain k where "(k, c) \<in> set (id3_children t)" by auto
  then have "size c < size t"
  proof (cases t)
    case (Leaf lbl conf n dst)
    with \<open>(k, c) \<in> set (id3_children t)\<close> show ?thesis by simp
  next
    case (Node f g n ch dflt)
    with \<open>(k, c) \<in> set (id3_children t)\<close> have "(k, c) \<in> set ch" by simp
    then have "size c < Suc (size_list (size_prod (\<lambda>_. 0) size) ch)"
      by (induction ch) auto
    with Node show ?thesis by simp
  qed
  then show "((maxDepth, Suc depth, c), (maxDepth, depth, t))
               \<in> measure (\<lambda>(maxDepth, depth, t). size t)"
    by simp
qed

declare tree_invariant.simps [simp del]

text \<open>
  Rows without a value that is named like an inherited property in any of the given
  columns: the rows that \<^verbatim>\<open>buildTree\<close> can group by these columns.
\<close>

definition plain_values :: "row list \<Rightarrow> string list \<Rightarrow> bool" where
  "plain_values data feats =
     list_all (\<lambda>r. list_all (\<lambda>f. cell_key f (cell r f) \<notin> set proto_names) feats) data"

text \<open>
  Two sales, on different days, of different items; and these with a third sale whose day
  reads ``constructor''.
\<close>

definition coffee_rows :: "row list" where
  "coffee_rows = [[(''Day'', ''Monday''), (''Item'', ''Latte'')],
              [(''Day'', ''Friday''), (''Item'', ''Espresso'')]]"

definition odd_day_rows :: "row list" where
  "odd_day_rows = coffee_rows @ [[(''Day'', ''constructor''), (''Item'', ''Latte'')]]"

definition coffee_tree :: id3_tree where
  "coffee_tree =
     Node ''Day'' 1 2
       [(''Monday'', Leaf (Some ''Latte'') 1 1
           (Some [(''Latte'', \<lparr>share_count = Val 1, percentage = Num 100\<rparr>)])),
        (''Friday'', Leaf (Some ''Espresso'') 1 1
           (Some [(''Espresso'', \<lparr>share_count = Val 1, percentage = Num 100\<rparr>)]))]
       (Some ''Latte'')"

section \<open>Gini decision tree and random forest\<close>

text \<open>
  The tree of the price-sensitivity model splits numeric features at thresholds. A feature
  vector given to a tree is a list of numbers with \<^verbatim>\<open>undefined\<close> entries where the forest
  projected a row onto an index the row does not have; a label read past the end of \<open>y\<close>
  is \<^verbatim>\<open>undefined\<close> too, and as a key it is the string ``undefined''.
\<close>

definition key_of :: "string option \<Rightarrow> string" where
  "key_of v = (case v of None \<Rightarrow> ''undefined'' | Some s \<Rightarrow> s)"

definition js_nth :: "'a list \<Rightarrow> nat \<Rightarrow> 'a option" where
  "js_nth xs i = (if i < length xs then Some (xs ! i) else None)"

definition feature_at :: "real option list \<Rightarrow> nat \<Rightarrow> real option" where
  "feature_at r i = (case js_nth r i of None \<Rightarrow> None | Some v \<Rightarrow> v)"

definition label_at :: "string option list \<Rightarrow> nat \<Rightarrow> string option" where
  "label_at y i = (case js_nth y i of None \<Rightarrow> None | Some v \<Rightarrow> v)"

text \<open>\<^verbatim>\<open>v <= threshold\<close>, which is false for \<^verbatim>\<open>undefined\<close>.\<close>

definition le_threshold :: "real option \<Rightarrow> real \<Rightarrow> bool" where
  "le_threshold v t = (case v of None \<Rightarrow> False | Some x \<Rightarrow> x \<le> t)"

datatype TreeNode =
  TreeNode (featureIndex: "nat option") (threshold: "real option")
           (left: "TreeNode option") (right: "TreeNode option")
           (node_prediction: "string option") (isLeaf: bool)

text \<open>\<^verbatim>\<open>y.forEach(val => counts[val] = (counts[val] || 0) + 1)\<close>.\<close>

definition class_counts :: "string option list \<Rightarrow> (string \<times> nat or_junk) list" where
  "class_counts y = foldl (\<lambda>counts v. bump (key_of v) counts) [] y"

text \<open>A count that is no number makes the probability, and with it the impurity, \<^verbatim>\<open>NaN\<close>.\<close>

definition gini :: "string option list \<Rightarrow> jsnum" where
  "gini y =
     (let counts = class_counts y;
          total = length y
      in foldl (\<lambda>impurity cnt.
                  let prob = (case cnt of
                                Junk \<Rightarrow> NaN
                              | Val n \<Rightarrow> js_div (Num (real n)) (Num (real total)))
                  in js_sub impurity (js_mul prob prob))
           (Num 1) (map snd (js_entries counts)))"

text \<open>
  The midpoints between consecutive sorted distinct values of a feature. An \<^verbatim>\<open>undefined\<close>
  value sorts last; its midpoint is \<^verbatim>\<open>NaN\<close>, no row is at most \<^verbatim>\<open>NaN\<close>, the left side is
  empty and that candidate is passed over, so it is left out here.
\<close>

definition candidate_thresholds :: "real option list list \<Rightarrow> nat \<Rightarrow> real list" where
  "candidate_thresholds X featureIdx =
     (let vals = map (\<lambda>r. feature_at r featureIdx) X;
          uniqueValues =
            sort (js_unique (concat (map (\<lambda>v. case v of None \<Rightarrow> [] | Some x \<Rightarrow> [x]) vals)))
      in map (\<lambda>i. (uniqueValues ! i + uniqueValues ! (i + 1)) / 2)
           [0..<length uniqueValues - 1])"

definition split_indices :: "real option list list \<Rightarrow> nat \<Rightarrow> real \<Rightarrow> nat list \<times> nat list" where
  "split_indices X featureIdx t =
     (filter (\<lambda>idx. le_threshold (feature_at (X ! idx) featureIdx) t) [0..<length X],
      filter (\<lambda>idx. \<not> le_threshold (feature_at (X ! idx) featureIdx) t) [0..<length X])"

text \<open>
  One candidate of \<^verbatim>\<open>findBestSplit\<close>. The running best is \<open>None\<close> while \<^verbatim>\<open>bestFeature\<close>
  is \<^verbatim>\<open>null\<close> and \<^verbatim>\<open>bestGain\<close> is \<^verbatim>\<open>-Infinity\<close>. A gain that is \<^verbatim>\<open>NaN\<close>, as it is
  with an impurity that is \<^verbatim>\<open>NaN\<close> or with no labels at all, exceeds nothing.
\<close>

definition best_gain :: "(nat \<times> real \<times> jsnum) option \<Rightarrow> jsnum" where
  "best_gain best = (case best of None \<Rightarrow> NegInf | Some (feature, t, gain) \<Rightarrow> gain)"

definition try_split ::
  "real option list list \<Rightarrow> string option list \<Rightarrow> jsnum \<Rightarrow> nat \<Rightarrow> (nat \<times> real \<times> jsnum) option
     \<Rightarrow> real \<Rightarrow> (nat \<times> real \<times> jsnum) option" where
  "try_split X y parentGini featureIdx best t =
     (let (leftIndices, rightIndices) = split_indices X featureIdx t
      in if length leftIndices = 0 \<or> length rightIndices = 0 then best
         else
           let leftY = map (label_at y) leftIndices;
               rightY = map (label_at y) rightIndices;
               leftGini = gini leftY;
               rightGini = gini rightY;
               weightedGini = js_div (js_add (js_mul (Num (real (length leftY))) leftGini)
                                             (js_mul (Num (real (length rightY))) rightGini))
                                (Num (real (length y)));
               gain = js_sub parentGini weightedGini
           in if js_lt (best_gain best) gain then Some (featureIdx, t, gain) else best)"

definition findBestSplit ::
  "real option list list \<Rightarrow> string option list \<Rightarrow> nat list \<Rightarrow> (nat \<times> real \<times> jsnum) option" where
  "findBestSplit X y featureIndices =
     (let parentGini = gini y
      in foldl (\<lambda>best featureIdx.
                  foldl (try_split X y parentGini featureIdx) best
                    (candidate_thresholds X featureIdx))
           None featureIndices)"

text \<open>
  \<^verbatim>\<open>Object.entries(counts).sort((a, b) => b[1] - a[1])[0][0]\<close>: there is no first entry
  to read when the tally has no entries.
\<close>

definition majorityClass :: "engine_sort \<Rightarrow> string option list \<Rightarrow> error + string" where
  "majorityClass engine y =
     (case by_count_desc engine (js_entries (class_counts y)) of
        [] \<Rightarrow> Inl TypeError
      | (lbl, cnt) # _ \<Rightarrow> Inr lbl)"

definition leaf_for :: "engine_sort \<Rightarrow> string option list \<Rightarrow> error + TreeNode" where
  "leaf_for engine y =
     (case majorityClass engine y of
        Inl e \<Rightarrow> Inl e
      | Inr p \<Rightarrow> Inr (TreeNode None None None None (Some p) True))"

function gini_buildTree ::
  "engine_sort \<Rightarrow> nat \<Rightarrow> nat \<Rightarrow> real option list list \<Rightarrow> string option list \<Rightarrow> nat \<Rightarrow> nat list
     \<Rightarrow> error + TreeNode" where
  "gini_buildTree engine maxDepth minSamplesSplit X y depth featureIndices =
     (let uniqueClasses = js_unique y
      in if length uniqueClasses = 1 \<or> depth \<ge> maxDepth \<or> length y < minSamplesSplit
         then leaf_for engine y
         else
           case findBestSplit X y featureIndices of
             None \<Rightarrow> leaf_for engine y
           | Some (feature, t, gain) \<Rightarrow>
               if js_le gain (Num 0) then leaf_for engine y
               else
                 let leftIndices = fst (split_indices X feature t);
                     rightIndices = snd (split_indices X feature t);
                     leftX = map (\<lambda>i. X ! i) leftIndices;
                     leftY = map (label_at y) leftIndices;
                     rightX = map (\<lambda>i. X ! i) rightIndices;
                     rightY = map (label_at y) rightIndices
                 in case gini_buildTree engine maxDepth minSamplesSplit leftX leftY (depth + 1)
                           featureIndices of
                      Inl e \<Rightarrow> Inl e
                    | Inr l \<Rightarrow>
                        (case gini_buildTree engine maxDepth minSamplesSplit rightX rightY
                                (depth + 1) featureIndices of
                           Inl e \<Rightarrow> Inl e
                         | Inr r \<Rightarrow>
                             Inr (TreeNode (Some feature) (Some t) (Some l) (Some r) None False)))"
  by pat_completeness auto
termination
  by (relation "measure (\<lambda>(engine, maxDepth, minSamplesSplit, X, y, depth, featureIndices).
                            maxDepth - depth)") auto

declare gini_buildTree.simps [simp del]

text \<open>The tree classifier of the price-sensitivity model, named like the ID3 one there.\<close>

record GiniTreeClassifier =
  gt_maxDepth :: nat
  gt_minSamplesSplit :: nat
  gt_root :: "TreeNode option"
  gt_featureNames :: "string option list"
  gt_classes :: "string option list"

definition GiniTreeClassifier_new :: "nat option \<Rightarrow> nat option \<Rightarrow> GiniTreeClassifier" where
  "GiniTreeClassifier_new md mss =
     \<lparr>gt_maxDepth = (case md of None \<Rightarrow> 5 | Some d \<Rightarrow> d),
      gt_minSamplesSplit = (case mss of None \<Rightarrow> 5 | Some s \<Rightarrow> s),
      gt_root = None, gt_featureNames = [], gt_classes = []\<rparr>"

definition GiniTreeClassifier_fit ::
  "engine_sort \<Rightarrow> GiniTreeClassifier \<Rightarrow> real option list list \<Rightarrow> string option list
     \<Rightarrow> string option list \<Rightarrow> error + GiniTreeClassifier" where
  "GiniTreeClassifier_fit engine c X y featureNames =
     (case X of
        [] \<Rightarrow> Inl TypeError
      | row0 # _ \<Rightarrow>
          (case gini_buildTree engine (gt_maxDepth c) (gt_minSamplesSplit c) X y 0 [0..<length row0] of
             Inl e \<Rightarrow> Inl e
           | Inr node \<Rightarrow>
               Inr (c\<lparr>gt_featureNames := featureNames, gt_classes := js_unique y,
                      gt_root := Some node\<rparr>)))"

text \<open>
  The loop of \<^verbatim>\<open>predictOne\<close> from a node on. An index of \<^verbatim>\<open>null\<close> reads \<^verbatim>\<open>undefined\<close>, a
  threshold of \<^verbatim>\<open>null\<close> compares as 0, and stepping to a child that is \<^verbatim>\<open>null\<close> throws.
\<close>

fun descend :: "TreeNode \<Rightarrow> real option list \<Rightarrow> error + string option" where
  "descend (TreeNode fi th l r p leaf) x =
     (if leaf then Inr p
      else if le_threshold (case fi of None \<Rightarrow> None | Some i \<Rightarrow> feature_at x i) (num_of_null th)
           then (case l of None \<Rightarrow> Inl TypeError | Some n \<Rightarrow> descend n x)
           else (case r of None \<Rightarrow> Inl TypeError | Some n \<Rightarrow> descend n x))"

definition predictOne :: "GiniTreeClassifier \<Rightarrow> real option list \<Rightarrow> error + string option" where
  "predictOne c x = (case gt_root c of None \<Rightarrow> Inl TypeError | Some n \<Rightarrow> descend n x)"

record RandomForestClassifier =
  nTrees :: nat
  rf_maxDepth :: nat
  rf_minSamplesSplit :: nat
  maxFeatures :: string
  trees :: "GiniTreeClassifier list"
  featureSubsets :: "nat option list list"
  rf_featureNames :: "string list"
  rf_classes :: "string list"

definition RandomForestClassifier_new ::
  "nat option \<Rightarrow> nat option \<Rightarrow> nat option \<Rightarrow> string option \<Rightarrow> RandomForestClassifier" where
  "RandomForestClassifier_new n md mss mf =
     \<lparr>nTrees = (case n of None \<Rightarrow> 10 | Some k \<Rightarrow> k),
      rf_maxDepth = (case md of None \<Rightarrow> 5 | Some d \<Rightarrow> d),
      rf_minSamplesSplit = (case mss of None \<Rightarrow> 5 | Some s \<Rightarrow> s),
      maxFeatures = (case mf of None \<Rightarrow> ''sqrt'' | Some m \<Rightarrow> m),
      trees = [], featureSubsets = [], rf_featureNames = [], rf_classes = []\<rparr>"

text \<open>
  The random source is the sequence of numbers that the calls of \<^verbatim>\<open>Math.random\<close> select:
  \<^verbatim>\<open>Math.floor(Math.random() * n)\<close> is any index below \<open>n\<close>, and 0 when \<open>n\<close> is 0.
\<close>

type_synonym rng = "nat \<Rightarrow> nat"

definition random_index :: "nat \<Rightarrow> nat \<Rightarrow> nat" where
  "random_index r n = (if n = 0 then 0 else r mod n)"

definition draw :: "rng \<Rightarrow> nat \<Rightarrow> nat \<times> rng" where
  "draw g n = (random_index (g 0) n, \<lambda>i. g (Suc i))"

fun draws :: "rng \<Rightarrow> nat \<Rightarrow> nat \<Rightarrow> nat list \<times> rng" where
  "draws g 0 n = ([], g)"
| "draws g (Suc k) n =
     (let (i, g1) = draw g n; (rest, g2) = draws g1 k n in (i # rest, g2))"

definition bootstrap ::
  "rng \<Rightarrow> real list list \<Rightarrow> string list \<Rightarrow> (real list list \<times> string option list) \<times> rng" where
  "bootstrap g X y =
     (let n = length X;
          (indices, g1) = draws g n n
      in ((map (\<lambda>i. X ! i) indices, map (js_nth y) indices), g1))"

definition nSelect :: "string \<Rightarrow> nat \<Rightarrow> nat" where
  "nSelect mf nFeatures =
     (if mf = ''sqrt'' then nat \<lceil>sqrt (real nFeatures)\<rceil>
      else nat \<lceil>real nFeatures * (7 / 10)\<rceil>)"

text \<open>\<^verbatim>\<open>indices.push(available.splice(idx, 1)[0])\<close>, \<open>k\<close> times.\<close>

fun pick_features :: "rng \<Rightarrow> nat \<Rightarrow> nat list \<Rightarrow> nat option list \<times> rng" where
  "pick_features g 0 available = ([], g)"
| "pick_features g (Suc k) available =
     (let (idx, g1) = draw g (length available);
          picked = js_nth available idx;
          (more, g2) = pick_features g1 k (take idx available @ drop (Suc idx) available)
      in (picked # more, g2))"

definition selectFeatures :: "RandomForestClassifier \<Rightarrow> rng \<Rightarrow> nat \<Rightarrow> nat option list \<times> rng" where
  "selectFeatures f g nFeatures =
     pick_features g (nSelect (maxFeatures f) nFeatures) [0..<nFeatures]"

definition project :: "nat option list \<Rightarrow> 'a list \<Rightarrow> 'a option list" where
  "project idxs r = map (\<lambda>fi. case fi of None \<Rightarrow> None | Some i \<Rightarrow> js_nth r i) idxs"

text \<open>The loop of \<^verbatim>\<open>fit\<close>: \<open>k\<close> more trees, each from its own bootstrap sample and features.\<close>

fun grow_trees ::
  "engine_sort \<Rightarrow> RandomForestClassifier \<Rightarrow> rng \<Rightarrow> nat \<Rightarrow> real list list \<Rightarrow> string list
     \<Rightarrow> string list \<Rightarrow> error + (GiniTreeClassifier list \<times> nat option list list \<times> rng)" where
  "grow_trees engine f g 0 X y featureNames = Inr ([], [], g)"
| "grow_trees engine f g (Suc k) X y featureNames =
     (let ((bootX, bootY), g1) = bootstrap g X y
      in case X of
           [] \<Rightarrow> Inl TypeError
         | row0 # _ \<Rightarrow>
             let (featureSubset, g2) = selectFeatures f g1 (length row0);
                 subsetX = map (project featureSubset) bootX;
                 tree = GiniTreeClassifier_new (Some (rf_maxDepth f)) (Some (rf_minSamplesSplit f))
             in case GiniTreeClassifier_fit engine tree subsetX bootY
                       (project featureSubset featureNames) of
                  Inl e \<Rightarrow> Inl e
                | Inr fitted_tree \<Rightarrow>
                    (case grow_trees engine f g2 k X y featureNames of
                       Inl e \<Rightarrow> Inl e
                     | Inr (ts, subsets, g3) \<Rightarrow>
                         Inr (fitted_tree # ts, featureSubset # subsets, g3)))"

definition RandomForestClassifier_fit ::
  "engine_sort \<Rightarrow> RandomForestClassifier \<Rightarrow> rng \<Rightarrow> real list list \<Rightarrow> string list \<Rightarrow> string list
     \<Rightarrow> error + RandomForestClassifier \<times> rng" where
  "RandomForestClassifier_fit engine f g X y featureNames =
     (case grow_trees engine f g (nTrees f) X y featureNames of
        Inl e \<Rightarrow> Inl e
      | Inr (ts, subsets, g1) \<Rightarrow>
          Inr (f\<lparr>rf_featureNames := featureNames, rf_classes := js_unique y, trees := ts,
                 featureSubsets := subsets\<rparr>, g1))"

text \<open>The key under which a prediction is counted: \<^verbatim>\<open>null\<close> is the string ``null''.\<close>

definition key_of_null :: "string option \<Rightarrow> string" where
  "key_of_null v = (case v of None \<Rightarrow> ''null'' | Some s \<Rightarrow> s)"

definition vote_of :: "RandomForestClassifier \<Rightarrow> real list \<Rightarrow> nat \<Rightarrow> GiniTreeClassifier \<Rightarrow> error + string" where
  "vote_of f x i tree =
     (case js_nth (featureSubsets f) i of
        None \<Rightarrow> Inl TypeError
      | Some idxs \<Rightarrow>
          (case predictOne tree (project idxs x) of
             Inl e \<Rightarrow> Inl e
           | Inr pred \<Rightarrow> Inr (key_of_null pred)))"

text \<open>The loop over the trees, with \<^verbatim>\<open>votes[pred] = (votes[pred] || 0) + 1\<close>.\<close>

fun cast_votes ::
  "RandomForestClassifier \<Rightarrow> real list \<Rightarrow> (nat \<times> GiniTreeClassifier) list
     \<Rightarrow> (string \<times> nat or_junk) list \<Rightarrow> error + (string \<times> nat or_junk) list" where
  "cast_votes f x [] votes = Inr votes"
| "cast_votes f x ((i, tree) # rest) votes =
     (case vote_of f x i tree of
        Inl e \<Rightarrow> Inl e
      | Inr pred \<Rightarrow> cast_votes f x rest (bump pred votes))"

definition predict_row :: "engine_sort \<Rightarrow> RandomForestClassifier \<Rightarrow> real list \<Rightarrow> error + string" where
  "predict_row engine f x =
     (case cast_votes f x (zip [0..<length (trees f)] (trees f)) [] of
        Inl e \<Rightarrow> Inl e
      | Inr votes \<Rightarrow>
          (case by_count_desc engine (js_entries votes) of
             [] \<Rightarrow> Inl TypeError
           | (lbl, cnt) # _ \<Rightarrow> Inr lbl))"

definition RandomForestClassifier_predict ::
  "engine_sort \<Rightarrow> RandomForestClassifier \<Rightarrow> real list list \<Rightarrow> error + string list" where
  "RandomForestClassifier_predict engine f X = map_throwing (predict_row engine f) X"

text \<open>
  \<^verbatim>\<open>votes[c] / this.nTrees\<close>, where \<^verbatim>\<open>votes[c]\<close> may be a count, a string that is no
  number, \<^verbatim>\<open>undefined\<close> or an inherited property.
\<close>

definition vote_share :: "nat or_junk lookup \<Rightarrow> nat \<Rightarrow> jsnum" where
  "vote_share v n =
     (case v of Own (Val k) \<Rightarrow> js_div (Num (real k)) (Num (real n)) | _ \<Rightarrow> NaN)"

text \<open>
  The votes start with \<^verbatim>\<open>votes[c] = 0\<close> for every class and the result is filled by
  \<^verbatim>\<open>probs[c] = votes[c] / this.nTrees\<close>: assignments of numbers, which leave no entry for
  a class named \<^verbatim>\<open>__proto__\<close>. The result is the object \<open>probs\<close> with its own properties.
\<close>

definition predictProba_row ::
  "RandomForestClassifier \<Rightarrow> real list \<Rightarrow> error + (string \<times> jsnum) list" where
  "predictProba_row f x =
     (let votes0 = foldl (\<lambda>votes c. js_put c (Val 0) votes) [] (rf_classes f)
      in case cast_votes f x (zip [0..<length (trees f)] (trees f)) votes0 of
           Inl e \<Rightarrow> Inl e
         | Inr votes \<Rightarrow>
             Inr (foldl (\<lambda>probs c. js_put c (vote_share (js_get votes c) (nTrees f)) probs)
                    [] (rf_classes f)))"

definition predictProba ::
  "RandomForestClassifier \<Rightarrow> real list list \<Rightarrow> error + (string \<times> jsnum) list list" where
  "predictProba f X = map_throwing (predictProba_row f) X"

text \<open>
  The structure of a threshold tree: a node is a leaf when its \<^verbatim>\<open>isLeaf\<close> flag is set, its
  children are \<^verbatim>\<open>left\<close> and \<^verbatim>\<open>right\<close> where they are not \<^verbatim>\<open>null\<close>, and \<open>depth\<close> is the
  depth of the node itself.
\<close>

fun node_children :: "TreeNode \<Rightarrow> (string \<times> TreeNode) list" where
  "node_children (TreeNode fi th l r p leaf) =
     (case l of None \<Rightarrow> [] | Some n \<Rightarrow> [(''left'', n)])
     @ (case r of None \<Rightarrow> [] | Some n \<Rightarrow> [(''right'', n)])"

fun gini_invariant :: "nat \<Rightarrow> nat \<Rightarrow> TreeNode \<Rightarrow> bool" where
  "gini_invariant maxDepth depth (TreeNode fi th l r p leaf) =
     (depth \<le> maxDepth
      \<and> (leaf \<longleftrightarrow> node_children (TreeNode fi th l r p leaf) = [])
      \<and> (\<not> leaf \<longrightarrow> 2 \<le> length (node_children (TreeNode fi th l r p leaf))
                    \<and> distinct (map fst (node_children (TreeNode fi th l r p leaf))))
      \<and> (case l of None \<Rightarrow> True | Some n \<Rightarrow> gini_invariant maxDepth (Suc depth) n)
      \<and> (case r of None \<Rightarrow> True | Some n \<Rightarrow> gini_invariant maxDepth (Suc depth) n))"

text \<open>Every path of the tree ends in a leaf whose prediction is one of the labels \<open>L\<close>.\<close>

fun predicts_within :: "string set \<Rightarrow> TreeNode \<Rightarrow> bool" where
  "predicts_within L (TreeNode fi th l r p leaf) =
     (if leaf then (case p of None \<Rightarrow> False | Some s \<Rightarrow> s \<in> L)
      else (case l of None \<Rightarrow> False | Some n \<Rightarrow> predicts_within L n)
           \<and> (case r of None \<Rightarrow> False | Some n \<Rightarrow> predicts_within L n))"

text \<open>
  How many of the listed trees vote for a class on a row, and how many of all the trees of
  the forest do.
\<close>

definition tally ::
  "RandomForestClassifier \<Rightarrow> real list \<Rightarrow> (nat \<times> GiniTreeClassifier) list \<Rightarrow> string \<Rightarrow> nat" where
  "tally f x its c = length (filter (\<lambda>(i, tree). vote_of f x i tree = Inr c) its)"

definition votes_for :: "RandomForestClassifier \<Rightarrow> real list \<Rightarrow> string \<Rightarrow> nat" where
  "votes_for f x c = tally f x (zip [0..<length (trees f)] (trees f)) c"

text \<open>A running best split, if there is one, has rows on both of its sides.\<close>

definition both_sides :: "real option list list \<Rightarrow> (nat \<times> real \<times> jsnum) option \<Rightarrow> bool" where
  "both_sides X best =
     (case best of
        None \<Rightarrow> True
      | Some (f, t, g) \<Rightarrow> fst (split_indices X f t) \<noteq> [] \<and> snd (split_indices X f t) \<noteq> [])"

text \<open>
  A forest of one tree on two rows of one feature, with the random source that selects
  0, 1, 2 and so on, and the forest that \<^verbatim>\<open>fit\<close> makes of it; and a forest of no trees.
\<close>

definition tiny_forest :: RandomForestClassifier where
  "tiny_forest = RandomForestClassifier_new (Some 1) None (Some 2) None"

definition tiny_forest_fitted :: RandomForestClassifier where
  "tiny_forest_fitted =
     \<lparr>nTrees = 1, rf_maxDepth = 5, rf_minSamplesSplit = 2, maxFeatures = ''sqrt'',
      trees = [\<lparr>gt_maxDepth = 5, gt_minSamplesSplit = 2,
                gt_root = Some (TreeNode (Some 0) (Some (3 / 2))
                                  (Some (TreeNode None None None None (Some ''budget'') True))
                                  (Some (TreeNode None None None None (Some ''premium'') True))
                                  None False),
                gt_featureNames = [Some ''age''],
                gt_classes = [Some ''budget'', Some ''premium'']\<rparr>],
      featureSubsets = [[Some 0]], rf_featureNames = [''age''],
      rf_classes = [''budget'', ''premium'']\<rparr>"

definition empty_forest :: RandomForestClassifier where
  "empty_forest = RandomForestClassifier_new (Some 0) None None None"

definition empty_forest_fitted :: RandomForestClassifier where
  "empty_forest_fitted =
     \<lparr>nTrees = 0, rf_maxDepth = 5, rf_minSamplesSplit = 5, maxFeatures = ''sqrt'',
      trees = [], featureSubsets = [], rf_featureNames = [''age''], rf_classes = [''budget'']\<rparr>"

text \<open>The forest that \<^verbatim>\<open>PriceSensitivityModel.train\<close> constructs.\<close>

definition PriceSensitivityModel_forest :: RandomForestClassifier where
  "PriceSensitivityModel_forest = RandomForestClassifier_new (Some 15) (Some 6) (Some 3) None"

section \<open>Linear regression\<close>

text \<open>
  An observation: the weather numbers, \<open>None\<close> where the field is missing or not a number,
  the three categories, and the sales count that training reads.
\<close>

record features =
  Rain :: "real option"
  MinTemp :: "real option"
  MaxTemp :: "real option"
  Day :: "string option"
  TimeSlot :: "string option"
  Season :: "string option"
  Sales :: real

definition encodings_Day :: "(string \<times> real) list" where
  "encodings_Day = [(''Monday'', 0), (''Tuesday'', 1), (''Wednesday'', 2), (''Thursday'', 3),
                    (''Friday'', 4), (''Saturday'', 5), (''Sunday'', 6)]"

definition encodings_TimeSlot :: "(string \<times> real) list" where
  "encodings_TimeSlot = [(''Morning'', 0), (''Afternoon'', 1), (''Evening'', 2)]"

definition encodings_Season :: "(string \<times> real) list" where
  "encodings_Season = [(''Winter'', 0), (''Spring'', 1), (''Summer'', 2), (''Autumn'', 3),
                       (''Fall'', 3)]"

text \<open>\<^verbatim>\<open>v || d\<close> on a number: the default replaces a missing value and also 0.\<close>

definition or_default :: "real option \<Rightarrow> real \<Rightarrow> real" where
  "or_default v d = (case v of None \<Rightarrow> d | Some x \<Rightarrow> if x = 0 then d else x)"

text \<open>\<^verbatim>\<open>table[key] ?? d\<close>.\<close>

definition encode :: "(string \<times> real) list \<Rightarrow> string option \<Rightarrow> real \<Rightarrow> real" where
  "encode table k d =
     (case k of
        None \<Rightarrow> d
      | Some s \<Rightarrow> (case map_of table s of None \<Rightarrow> d | Some code \<Rightarrow> code))"

definition featuresToNumeric :: "features \<Rightarrow> real list" where
  "featuresToNumeric ft =
     [or_default (Rain ft) 0, or_default (MinTemp ft) 10, or_default (MaxTemp ft) 20,
      encode encodings_Day (Day ft) 3, encode encodings_TimeSlot (TimeSlot ft) 1,
      encode encodings_Season (Season ft) 2]"

text \<open>
  Matrices are lists of rows. The matrix routines read \<^verbatim>\<open>matrix[0]\<close>; \<^verbatim>\<open>train\<close> calls them
  with at least two rows of equal length, and on no rows they are given no rows here.
\<close>

definition column_means :: "real list list \<Rightarrow> real list" where
  "column_means X =
     (case X of
        [] \<Rightarrow> []
      | row0 # _ \<Rightarrow>
          map (\<lambda>colIdx. let col = map (\<lambda>r. r ! colIdx) X
                         in foldl (+) 0 col / real (length col))
            [0..<length row0])"

definition column_stds :: "real list list \<Rightarrow> real list \<Rightarrow> real list" where
  "column_stds X means =
     (case X of
        [] \<Rightarrow> []
      | row0 # _ \<Rightarrow>
          map (\<lambda>colIdx. let col = map (\<lambda>r. r ! colIdx) X;
                             mean = means ! colIdx;
                             variance = foldl (\<lambda>a b. a + (b - mean) ^ 2) 0 col / real (length col)
                         in if sqrt variance = 0 then 1 else sqrt variance)
            [0..<length row0])"

definition normalize_row :: "real list \<Rightarrow> real list \<Rightarrow> real list \<Rightarrow> real list" where
  "normalize_row means stds r =
     map (\<lambda>(val, idx). (val - means ! idx) / stds ! idx) (zip r [0..<length r])"

definition transpose_matrix :: "real list list \<Rightarrow> real list list" where
  "transpose_matrix m =
     (case m of
        [] \<Rightarrow> []
      | row0 # _ \<Rightarrow> map (\<lambda>colIdx. map (\<lambda>r. r ! colIdx) m) [0..<length row0])"

definition matMul :: "real list list \<Rightarrow> real list list \<Rightarrow> real list list" where
  "matMul A B =
     (case (A, B) of
        (a0 # _, b0 # _) \<Rightarrow>
          map (\<lambda>i. map (\<lambda>j. foldl (\<lambda>s k. s + A ! i ! k * B ! k ! j) 0 [0..<length a0])
                     [0..<length b0])
            [0..<length A]
      | _ \<Rightarrow> [])"

definition matVecMul :: "real list list \<Rightarrow> real list \<Rightarrow> real list" where
  "matVecMul A v =
     map (\<lambda>r. foldl (\<lambda>sum (val, idx). sum + val * v ! idx) 0 (zip r [0..<length r])) A"

text \<open>One column of the Gauss-Jordan elimination on the augmented matrix of \<open>n\<close> rows.\<close>

definition pivot_row :: "real list list \<Rightarrow> nat \<Rightarrow> nat \<Rightarrow> nat" where
  "pivot_row augmented n i =
     foldl (\<lambda>maxRow k. if \<bar>augmented ! k ! i\<bar> > \<bar>augmented ! maxRow ! i\<bar> then k else maxRow)
       i [i + 1..<n]"

definition eliminate_column :: "nat \<Rightarrow> real list list \<Rightarrow> nat \<Rightarrow> real list list" where
  "eliminate_column n augmented i =
     (let maxRow = pivot_row augmented n i;
          a1 = augmented[i := augmented ! maxRow, maxRow := augmented ! i];
          a2 = (if \<bar>a1 ! i ! i\<bar> < 1 / 10 ^ 10
                then a1[i := (a1 ! i)[i := a1 ! i ! i + 1 / 10 ^ 6]] else a1);
          scale = a2 ! i ! i;
          a3 = a2[i := map (\<lambda>x. x / scale) (take (2 * n) (a2 ! i)) @ drop (2 * n) (a2 ! i)]
      in map (\<lambda>k. if k \<noteq> i
                   then let factor = a3 ! k ! i
                        in map (\<lambda>(x, p). x - factor * p) (zip (take (2 * n) (a3 ! k)) (a3 ! i))
                           @ drop (2 * n) (a3 ! k)
                   else a3 ! k)
           [0..<length a3])"

definition invertMatrix :: "real list list \<Rightarrow> real list list" where
  "invertMatrix m =
     (let n = length m;
          augmented = map (\<lambda>(r, i). r @ (replicate n 0)[i := 1]) (zip m [0..<n])
      in map (drop n) (foldl (eliminate_column n) augmented [0..<n]))"

text \<open>\<^verbatim>\<open>for (let i = 1; i < XTX.length; i++) XTX[i][i] += lambda\<close>.\<close>

definition add_ridge :: "real \<Rightarrow> real list list \<Rightarrow> real list list" where
  "add_ridge lambda XTX =
     foldl (\<lambda>m i. m[i := (m ! i)[i := m ! i ! i + lambda]]) XTX [1..<length XTX]"

record train_stats =
  stat_r2 :: jsnum
  stat_rmse :: real
  stat_mae :: real
  stat_samples :: nat
  yMean :: real
  yMin :: real
  yMax :: real

record LinearRegressionModel =
  weights :: "real list option"
  bias :: real
  featureMeans :: "real list option"
  featureStds :: "real list option"
  trainStats :: "train_stats option"

definition LinearRegressionModel_new :: LinearRegressionModel where
  "LinearRegressionModel_new =
     \<lparr>weights = None, bias = 0, featureMeans = None, featureStds = None, trainStats = None\<rparr>"

text \<open>The stages of \<^verbatim>\<open>train\<close> up to the coefficients, named as its local variables are.\<close>

definition X_norm :: "features list \<Rightarrow> real list list" where
  "X_norm data =
     (let X = map featuresToNumeric data;
          means = column_means X;
          stds = column_stds X means
      in map (normalize_row means stds) X)"

definition X_bias :: "features list \<Rightarrow> real list list" where
  "X_bias data = map (\<lambda>r. 1 # r) (X_norm data)"

definition XTX :: "features list \<Rightarrow> real list list" where
  "XTX data = matMul (transpose_matrix (X_bias data)) (X_bias data)"

definition XTX_regularized :: "features list \<Rightarrow> real list list" where
  "XTX_regularized data = add_ridge (1 / 100) (XTX data)"

definition XTy :: "features list \<Rightarrow> real list" where
  "XTy data = matVecMul (transpose_matrix (X_bias data)) (map Sales data)"

definition theta :: "features list \<Rightarrow> real list" where
  "theta data = matVecMul (invertMatrix (XTX_regularized data)) (XTy data)"

definition predictNormalized :: "real \<Rightarrow> real list \<Rightarrow> real list \<Rightarrow> real" where
  "predictNormalized b w x_norm =
     max 0 (b + foldl (\<lambda>sum (xi, i). sum + xi * w ! i) 0 (zip x_norm [0..<length x_norm]))"

definition LinearRegressionModel_train ::
  "LinearRegressionModel \<Rightarrow> features list \<Rightarrow> error + train_stats \<times> LinearRegressionModel" where
  "LinearRegressionModel_train m data =
     (if length data < 2 then Inl (Error ''Need at least 2 data points to train'')
      else
        let X = map featuresToNumeric data;
            y = map Sales data;
            means = column_means X;
            stds = column_stds X means;
            th = theta data;
            b = th ! 0;
            w = drop 1 th;
            predictions = map (predictNormalized b w) (X_norm data);
            mean_y = foldl (+) 0 y / real (length y);
            ssRes = foldl (\<lambda>sum (yi, p). sum + (yi - p) ^ 2) 0 (zip y predictions);
            ssTot = foldl (\<lambda>sum yi. sum + (yi - mean_y) ^ 2) 0 y;
            stats = \<lparr>stat_r2 = clamp01 (js_sub (Num 1) (js_div (Num ssRes) (Num ssTot))),
                     stat_rmse = sqrt (ssRes / real (length y)),
                     stat_mae = foldl (\<lambda>sum (yi, p). sum + \<bar>yi - p\<bar>) 0 (zip y predictions)
                                  / real (length y),
                     stat_samples = length data,
                     yMean = mean_y,
                     yMin = foldl min (hd y) y,
                     yMax = foldl max (hd y) y\<rparr>
        in Inr (stats, m\<lparr>featureMeans := Some means, featureStds := Some stds, bias := b,
                         weights := Some w, trainStats := Some stats\<rparr>))"

text \<open>\<^verbatim>\<open>Math.round\<close> is the integer nearest above on a tie.\<close>

definition LinearRegressionModel_predict :: "LinearRegressionModel \<Rightarrow> features \<Rightarrow> error + int" where
  "LinearRegressionModel_predict m ft =
     (case weights m of
        None \<Rightarrow> Inl (Error ''Model not trained'')
      | Some w \<Rightarrow>
          (case (featureMeans m, featureStds m) of
             (Some means, Some stds) \<Rightarrow>
               Inr \<lfloor>max 0 (predictNormalized (bias m) w
                              (normalize_row means stds (featuresToNumeric ft))) + 1 / 2\<rfloor>
           | _ \<Rightarrow> Inl TypeError))"

text \<open>Two observations: a wet Monday morning with 12 sales, a dry Friday evening with 30.\<close>

definition wet_monday :: features where
  "wet_monday = \<lparr>Rain = Some 5, MinTemp = Some 8, MaxTemp = Some 14, Day = Some ''Monday'',
                  TimeSlot = Some ''Morning'', Season = Some ''Winter'', Sales = 12\<rparr>"

definition dry_friday :: features where
  "dry_friday = \<lparr>Rain = None, MinTemp = Some 12, MaxTemp = Some 22, Day = Some ''Friday'',
                  TimeSlot = Some ''Evening'', Season = Some ''Summer'', Sales = 30\<rparr>"

section \<open>Properties\<close>

subsection \<open>Holt forecaster\<close>

lemma holt_loop_lengths:
  "foldl (holt_step a b) (l, t, fs, rs) vs = (l', t', fs', rs') \<Longrightarrow>
     length fs' = length fs + length vs \<and> length rs' = length rs + length vs"
proof (induction vs arbitrary: l t fs rs)
  case Nil
  then show ?case by simp
next
  case (Cons v vs)
  obtain l1 t1 fs1 rs1 where s: "holt_step a b (l, t, fs, rs) v = (l1, t1, fs1, rs1)"
    by (metis prod_cases4)
  then have "length fs1 = Suc (length fs) \<and> length rs1 = Suc (length rs)"
    by (auto simp: holt_step_def Let_def)
  moreover from Cons.prems s have "foldl (holt_step a b) (l1, t1, fs1, rs1) vs = (l', t', fs', rs')"
    by simp
  ultimately show ?case using Cons.IH by fastforce
qed

lemma HoltForecaster_fit_fields:
  assumes "HoltForecaster_fit m vals = Inr m'"
  shows "\<exists>lv tr. level m' = Some lv \<and> trend m' = Some tr \<and> length (residuals m') = length vals
           \<and> length (fitted m') = length vals \<and> trainData m' = vals \<and> 2 \<le> length vals
           \<and> alpha m' = alpha m \<and> beta m' = beta m"
proof -
  from assms have len: "2 \<le> length vals"
    by (auto simp: HoltForecaster_fit_def split: if_splits)
  obtain lv tr fs rs where f: "foldl (holt_step (alpha m) (beta m))
      (vals ! 0, vals ! 1 - vals ! 0, [vals ! 0], [vals ! 0 - vals ! 0]) (drop 1 vals) = (lv, tr, fs, rs)"
    by (metis prod_cases4)
  from holt_loop_lengths[OF f] len have "length fs = length vals" "length rs = length vals"
    by auto
  with assms f len show ?thesis
    by (auto simp: HoltForecaster_fit_def Let_def)
qed

lemma sumsq_nonneg: "0 \<le> s \<Longrightarrow> 0 \<le> foldl (\<lambda>s r. s + r * r) s (rs :: real list)"
  by (induction rs arbitrary: s) auto

lemma forecast_fitted:
  assumes "level m = Some lv"
  shows "HoltForecaster_forecast m steps =
           (Inr (map (\<lambda>i. max 0 (lv + real i * num_of_null (trend m))) [1..<Suc steps]), m)"
  using assms by (simp add: HoltForecaster_forecast_def)

lemma js_max_Num [simp]: "js_max (Num a) (Num b) = Num (max a b)"
  by (simp add: js_max_def max_def)

lemma js_min_Num [simp]: "js_min (Num a) (Num b) = Num (min a b)"
  by (simp add: js_min_def min_def)

lemma js_sub_Num [simp]: "js_sub (Num a) (Num b) = Num (a - b)"
  by (simp add: js_sub_def)

lemma ci_entries:
  assumes lv: "level m = Some lv" and tr: "trend m = Some tr" and ne: "residuals m \<noteq> []"
  shows "getConfidenceIntervals m steps conf =
     (Inr (map (\<lambda>i. let p = max 0 (lv + real (Suc i) * tr);
                        u = ci_se m * sqrt (1 + (real i + 1) * (1 / 10))
                    in \<lparr>prediction = p,
                        lower = Num (max 0 (p - z_score conf * u)),
                        upper = Num (p + z_score conf * u)\<rparr>) [0..<steps]), m)"
proof -
  have nn: "0 \<le> foldl (\<lambda>s r. s + r * r) 0 (residuals m) / real (length (residuals m))"
    using sumsq_nonneg[of 0 "residuals m"] by simp
  have len: "real (length (residuals m)) \<noteq> 0" using ne by simp
  have se: "js_sqrt (js_div (Num (foldl (\<lambda>s r. s + r * r) 0 (residuals m)))
                           (Num (real (length (residuals m))))) = Num (ci_se m)"
    using nn len by (simp add: ci_se_def)
  have zipmap: "map (\<lambda>(pred, i). f pred i) (zip (map g [1..<Suc steps]) [0..<length (map g [1..<Suc steps])])
        = map (\<lambda>i. f (g (Suc i)) i) [0..<steps]" for f :: "real \<Rightarrow> nat \<Rightarrow> interval" and g
    by (rule nth_equalityI) (auto simp: nth_append simp del: upt_Suc)
  have "fst (getConfidenceIntervals m steps conf) = Inr (map (\<lambda>i. let p = max 0 (lv + real (Suc i) * tr);
                        u = ci_se m * sqrt (1 + (real i + 1) * (1 / 10))
                    in \<lparr>prediction = p,
                        lower = Num (max 0 (p - z_score conf * u)),
                        upper = Num (p + z_score conf * u)\<rparr>) [0..<steps])"
    unfolding getConfidenceIntervals_def forecast_fitted[OF lv]
    apply (simp add: se tr num_of_null_def Let_def del: upt_Suc js_div.simps js_sqrt.simps)
    apply (rule nth_equalityI)
     apply (simp_all add: nth_append del: upt_Suc)
    done
  moreover have "snd (getConfidenceIntervals m steps conf) = m"
    unfolding getConfidenceIntervals_def forecast_fitted[OF lv] by (simp add: Let_def)
  ultimately show ?thesis by (metis prod.collapse)
qed

lemma z_score_pos: "0 < z_score conf"
  by (simp add: z_score_def)

lemma ci_se_nonneg: "0 \<le> ci_se m"
  using sumsq_nonneg[of 0 "residuals m"] by (simp add: ci_se_def)

lemma horizon_mono: "i \<le> j \<Longrightarrow> sqrt (1 + (real i + 1) * (1 / 10)) \<le> sqrt (1 + (real j + 1) * (1 / 10))"
  by simp

text \<open>
  C1 (as amended). After a successful \<^verbatim>\<open>fit\<close>, \<^verbatim>\<open>getConfidenceIntervals(steps, confidence)\<close>
  returns \<open>steps\<close> entries, each with \<open>lower \<le> prediction \<le> upper\<close>. The upper margin
  \<open>upper - prediction\<close> never decreases along the horizon. The width \<open>upper - lower\<close> of a
  later entry is at least that of an earlier one when the fitted trend is not negative, or
  when the later entry's lower bound has not been clamped to 0.
\<close>

theorem confidence_interval_ordering:
  assumes fit: "HoltForecaster_fit m vals = Inr m'"
  shows "\<exists>ivs tr. fst (getConfidenceIntervals m' steps conf) = Inr ivs \<and> length ivs = steps
           \<and> trend m' = Some tr
           \<and> (\<forall>i<steps. js_le (lower (ivs ! i)) (Num (prediction (ivs ! i)))
                        \<and> js_le (Num (prediction (ivs ! i))) (upper (ivs ! i)))
           \<and> (\<forall>i j. i \<le> j \<and> j < steps \<longrightarrow> js_le (upper_margin (ivs ! i)) (upper_margin (ivs ! j)))
           \<and> (\<forall>i j. i \<le> j \<and> j < steps \<and> (0 \<le> tr \<or> lower (ivs ! j) \<noteq> Num 0)
                 \<longrightarrow> js_le (interval_width (ivs ! i)) (interval_width (ivs ! j)))"
proof -
  from HoltForecaster_fit_fields[OF fit] obtain lv tr where
    lv: "level m' = Some lv" and tr: "trend m' = Some tr" and ne: "residuals m' \<noteq> []"
    by fastforce
  define z where "z = z_score conf"
  define p where "p = (\<lambda>i. max 0 (lv + real (Suc i) * tr))"
  define a where "a = (\<lambda>i::nat. z * (ci_se m' * sqrt (1 + (real i + 1) * (1 / 10))))"
  define ivs where "ivs = map (\<lambda>i. \<lparr>prediction = p i, lower = Num (max 0 (p i - a i)),
                                    upper = Num (p i + a i)\<rparr>) [0..<steps]"
  have res: "fst (getConfidenceIntervals m' steps conf) = Inr ivs"
    by (simp add: ci_entries[OF lv tr ne] ivs_def p_def a_def z_def Let_def)
  have nth: "ivs ! i = \<lparr>prediction = p i, lower = Num (max 0 (p i - a i)), upper = Num (p i + a i)\<rparr>"
    if "i < steps" for i
    using that by (simp add: ivs_def)
  have p0: "0 \<le> p i" for i by (simp add: p_def)
  have a0: "0 \<le> a i" for i
    using z_score_pos[of conf] ci_se_nonneg[of m'] by (simp add: a_def z_def)
  have amono: "a i \<le> a j" if "i \<le> j" for i j
  proof -
    have "ci_se m' * sqrt (1 + (real i + 1) * (1 / 10)) \<le> ci_se m' * sqrt (1 + (real j + 1) * (1 / 10))"
      using horizon_mono[OF that] ci_se_nonneg[of m'] by (rule mult_left_mono)
    then show ?thesis
      unfolding a_def using z_score_pos[of conf] by (simp add: z_def)
  qed
  have pmono: "p i \<le> p j" if "i \<le> j" "0 \<le> tr" for i j
  proof -
    have "real (Suc i) * tr \<le> real (Suc j) * tr"
      using that by (intro mult_right_mono) auto
    then show ?thesis by (simp add: p_def max_def)
  qed
  have order: "js_le (lower (ivs ! i)) (Num (prediction (ivs ! i)))
                 \<and> js_le (Num (prediction (ivs ! i))) (upper (ivs ! i))" if "i < steps" for i
    using p0[of i] a0[of i] by (simp add: nth[OF that])
  have margin: "js_le (upper_margin (ivs ! i)) (upper_margin (ivs ! j))" if "i \<le> j" "j < steps" for i j
    using amono[OF that(1)] that by (simp add: nth upper_margin_def)
  have width: "js_le (interval_width (ivs ! i)) (interval_width (ivs ! j))"
    if ij: "i \<le> j" "j < steps" and c: "0 \<le> tr \<or> lower (ivs ! j) \<noteq> Num 0" for i j
  proof -
    have i: "i < steps" using ij by simp
    have goal: "p i + a i - max 0 (p i - a i) \<le> p j + a j - max 0 (p j - a j)"
    proof (cases "0 \<le> tr")
      case True
      from pmono[OF ij(1) True] amono[OF ij(1)] p0[of i] a0[of i] show ?thesis
        by (auto simp: max_def)
    next
      case False
      with c nth[OF ij(2)] have "max 0 (p j - a j) \<noteq> 0" by simp
      then have "0 < p j - a j" by (auto simp: max_def split: if_splits)
      with amono[OF ij(1)] a0[of i] show ?thesis by (auto simp: max_def)
    qed
    then show ?thesis by (simp add: nth[OF i] nth[OF ij(2)] interval_width_def)
  qed
  have "length ivs = steps" by (simp add: ivs_def)
  with res tr order margin width show ?thesis by blast
qed

lemma holt_example_fit:
  "HoltForecaster_fit (HoltForecaster_new None None) [3000, 2500, 2100, 1533] = Inr holt_example"
  by (simp add: HoltForecaster_fit_def HoltForecaster_new_def holt_step_def holt_example_def Let_def)

lemma holt_example_se: "ci_se holt_example = 50"
proof -
  have "sqrt 2500 = (50 :: real)" by (rule real_sqrt_unique) simp_all
  then show ?thesis by (simp add: ci_se_def holt_example_def)
qed

lemma upt3: "[0..<3] = [0, 1, 2 :: nat]"
  by code_simp

lemma holt_example_intervals:
  "fst (getConfidenceIntervals holt_example 3 (95 / 100)) =
     Inr [\<lparr>prediction = 1036, lower = Num (max 0 (1036 - 98 * sqrt (11 / 10))), upper = Num (1036 + 98 * sqrt (11 / 10))\<rparr>,
          \<lparr>prediction = 539, lower = Num (max 0 (539 - 98 * sqrt (12 / 10))), upper = Num (539 + 98 * sqrt (12 / 10))\<rparr>,
          \<lparr>prediction = 42, lower = Num (max 0 (42 - 98 * sqrt (13 / 10))), upper = Num (42 + 98 * sqrt (13 / 10))\<rparr>]"
proof -
  have "level holt_example = Some 1533" "trend holt_example = Some (- 497)" "residuals holt_example \<noteq> []"
    by (simp_all add: holt_example_def)
  from ci_entries[OF this, of 3 "95 / 100"] have
    "getConfidenceIntervals holt_example 3 (95 / 100) =
       (Inr (map (\<lambda>i. let p = max 0 (1533 + real (Suc i) * - 497);
                          u = ci_se holt_example * sqrt (1 + (real i + 1) * (1 / 10))
                      in \<lparr>prediction = p, lower = Num (max 0 (p - z_score (95 / 100) * u)),
                          upper = Num (p + z_score (95 / 100) * u)\<rparr>) [0, 1, 2]), holt_example)"
    by (simp only: upt3)
  then show ?thesis
    by (simp add: holt_example_se z_score_def Let_def)
qed

text \<open>
  C1 as stated fails: with the default smoothing parameters and the falling series
  3000, 2500, 2100, 1533 the forecasts are 1036, 539, 42; the third lower bound is clamped
  to 0, and the third interval is narrower than the second.
\<close>

theorem width_shrinks_counterexample:
  "HoltForecaster_fit (HoltForecaster_new None None) [3000, 2500, 2100, 1533] = Inr holt_example
   \<and> \<not> js_le (interval_width (projr (fst (getConfidenceIntervals holt_example 3 (95 / 100))) ! 1))
              (interval_width (projr (fst (getConfidenceIntervals holt_example 3 (95 / 100))) ! 2))"
proof -
  have lo: "109 / 100 \<le> sqrt (12 / 10 :: real)"
    by (rule real_le_rsqrt) (simp add: power2_eq_square)
  have hi: "sqrt (13 / 10 :: real) \<le> 115 / 100"
    by (rule real_le_lsqrt) (simp_all add: power2_eq_square)
  have hi2: "sqrt (12 / 10 :: real) \<le> 11 / 10"
    by (rule real_le_lsqrt) (simp_all add: power2_eq_square)
  have lo3: "1 \<le> sqrt (13 / 10 :: real)"
    by simp
  have gen: "\<not> (539 + 98 * a - max 0 (539 - 98 * a) \<le> 42 + 98 * b - max 0 (42 - 98 * b))"
    if "109 / 100 \<le> a" "a \<le> 11 / 10" "1 \<le> b" "b \<le> 115 / 100" for a b :: real
    using that unfolding max_def by (auto split: if_splits)
  have "\<not> (539 + 98 * sqrt (12 / 10) - max 0 (539 - 98 * sqrt (12 / 10))
            \<le> 42 + 98 * sqrt (13 / 10) - max 0 (42 - 98 * sqrt (13 / 10 :: real)))"
    by (rule gen[OF lo hi2 lo3 hi])
  then show ?thesis
    unfolding holt_example_intervals interval_width_def
    by (simp add: holt_example_fit)
qed

text \<open>C1 at the series 100, 105, 110, 115 with two forecast steps.\<close>

theorem confidence_interval_ordering_witness:
  "HoltForecaster_fit (HoltForecaster_new None None) [100, 105, 110, 115]
     = Inr \<lparr>alpha = 3 / 10, beta = 1 / 10, level = Some 115, trend = Some 5,
            fitted = [100, 105, 110, 115], residuals = [0, 0, 0, 0],
            trainData = [100, 105, 110, 115]\<rparr>
   \<and> (\<exists>ivs tr. fst (getConfidenceIntervals
           \<lparr>alpha = 3 / 10, beta = 1 / 10, level = Some 115, trend = Some 5,
            fitted = [100, 105, 110, 115], residuals = [0, 0, 0, 0],
            trainData = [100, 105, 110, 115]\<rparr> 2 (95 / 100)) = Inr ivs \<and> length ivs = 2
           \<and> Some (5 :: real) = Some tr
           \<and> (\<forall>i<2. js_le (lower (ivs ! i)) (Num (prediction (ivs ! i)))
                        \<and> js_le (Num (prediction (ivs ! i))) (upper (ivs ! i)))
           \<and> (\<forall>i j. i \<le> j \<and> j < 2 \<longrightarrow> js_le (upper_margin (ivs ! i)) (upper_margin (ivs ! j)))
           \<and> (\<forall>i j. i \<le> j \<and> j < 2 \<and> (0 \<le> tr \<or> lower (ivs ! j) \<noteq> Num 0)
                 \<longrightarrow> js_le (interval_width (ivs ! i)) (interval_width (ivs ! j))))"
proof -
  have f: "HoltForecaster_fit (HoltForecaster_new None None) [100, 105, 110, 115]
     = Inr \<lparr>alpha = 3 / 10, beta = 1 / 10, level = Some 115, trend = Some 5,
            fitted = [100, 105, 110, 115], residuals = [0, 0, 0, 0],
            trainData = [100, 105, 110, 115]\<rparr>"
    by (simp add: HoltForecaster_fit_def HoltForecaster_new_def holt_step_def Let_def)
  from confidence_interval_ordering[OF f, of 2 "95 / 100"] f show ?thesis by simp
qed

lemma holt_loop_constant:
  "\<exists>fs' rs'. foldl (holt_step a b) (c, 0, fs, rs) (replicate k c) = (c, 0, fs', rs')"
proof (induction k arbitrary: fs rs)
  case 0
  then show ?case by simp
next
  case (Suc k)
  have "holt_step a b (c, 0, fs, rs) c = (c, 0, fs @ [c], rs @ [0])"
    by (simp add: holt_step_def Let_def algebra_simps)
  with Suc.IH[of "fs @ [c]" "rs @ [0]"] show ?case by simp
qed

text \<open>
  C5 (as amended). Fitting a constant series of at least two observations \<open>c\<close> leaves the
  trend 0, and every forecast is \<open>max 0 c\<close>: the constant itself when it is not negative,
  and 0 when it is. The numbers of the model are real numbers, so these are equations here;
  the doubles of the code round each step, and what they give is approximately this.
\<close>

theorem constant_series_forecast:
  assumes "2 \<le> n"
  shows "\<exists>m'. HoltForecaster_fit m (replicate n c) = Inr m' \<and> trend m' = Some 0
            \<and> fst (HoltForecaster_forecast m' steps) = Inr (replicate steps (max 0 c))
            \<and> (0 \<le> c \<longrightarrow> fst (HoltForecaster_forecast m' steps) = Inr (replicate steps c))"
proof -
  from assms obtain k where n: "n = Suc (Suc k)"
    by (metis One_nat_def Suc_1 Suc_le_D Suc_le_mono)
  obtain fs rs where f: "foldl (holt_step (alpha m) (beta m)) (c, 0, [c], [0]) (replicate (Suc k) c)
                           = (c, 0, fs, rs)"
    using holt_loop_constant[of "alpha m" "beta m" c "[c]" "[0]" "Suc k"] by blast
  define m' where "m' = m\<lparr>trainData := replicate n c, level := Some c, trend := Some 0,
                             fitted := fs, residuals := rs\<rparr>"
  have fit: "HoltForecaster_fit m (replicate n c) = Inr m'"
    using f by (simp add: HoltForecaster_fit_def n m'_def Let_def del: replicate_Suc foldl_Cons)
  have "map (\<lambda>i. max 0 c) [1..<Suc steps] = replicate steps (max 0 c)"
    by (simp add: map_replicate_const del: upt_Suc)
  then have fc: "fst (HoltForecaster_forecast m' steps) = Inr (replicate steps (max 0 c))"
    by (simp add: HoltForecaster_forecast_def m'_def num_of_null_def del: upt_Suc)
  have "trend m' = Some 0" by (simp add: m'_def)
  with fit fc show ?thesis by (auto simp: max_def)
qed

text \<open>C5 at the series 7, 7, 7 with two forecast steps.\<close>

theorem constant_series_forecast_witness:
  "(2 :: nat) \<le> 3
   \<and> (\<exists>m'. HoltForecaster_fit (HoltForecaster_new None None) (replicate 3 7) = Inr m'
          \<and> trend m' = Some 0
          \<and> fst (HoltForecaster_forecast m' 2) = Inr (replicate 2 (max 0 7))
          \<and> ((0 :: real) \<le> 7 \<longrightarrow> fst (HoltForecaster_forecast m' 2) = Inr (replicate 2 7)))"
proof -
  have h: "(2 :: nat) \<le> 3" by simp
  from constant_series_forecast[OF h, of "HoltForecaster_new None None" 7 2] h show ?thesis
    by simp
qed

text \<open>
  C5 as stated fails for a negative constant: the series -5, -5 is fitted with level -5
  and trend 0, and the forecast is 0, which is not approximately -5.
\<close>

theorem negative_constant_counterexample:
  "HoltForecaster_fit (HoltForecaster_new None None) [- 5, - 5]
     = Inr \<lparr>alpha = 3 / 10, beta = 1 / 10, level = Some (- 5), trend = Some 0,
            fitted = [- 5, - 5], residuals = [0, 0], trainData = [- 5, - 5]\<rparr>
   \<and> fst (HoltForecaster_forecast
            \<lparr>alpha = 3 / 10, beta = 1 / 10, level = Some (- 5), trend = Some 0,
             fitted = [- 5, - 5], residuals = [0, 0], trainData = [- 5, - 5]\<rparr> 1) = Inr [0]
   \<and> fst (HoltForecaster_forecast
            \<lparr>alpha = 3 / 10, beta = 1 / 10, level = Some (- 5), trend = Some 0,
             fitted = [- 5, - 5], residuals = [0, 0], trainData = [- 5, - 5]\<rparr> 1) \<noteq> Inr [- 5]"
  by (simp add: HoltForecaster_fit_def HoltForecaster_new_def holt_step_def Let_def
      HoltForecaster_forecast_def num_of_null_def)

lemma forecast_frame: "snd (HoltForecaster_forecast m steps) = m"
  by (simp add: HoltForecaster_forecast_def split: option.splits)

lemma intervals_frame: "snd (getConfidenceIntervals m steps conf) = m"
  by (simp add: getConfidenceIntervals_def HoltForecaster_forecast_def Let_def split: option.splits)

lemma stats_frame: "snd (HoltForecaster_getStats m) = m"
  by (simp add: HoltForecaster_getStats_def Let_def)

lemma holt_call_frame: "snd (holt_call m q) = m"
  by (cases q) (simp_all add: forecast_frame intervals_frame stats_frame split: prod.splits,
      (metis forecast_frame intervals_frame stats_frame snd_conv)+)

lemma holt_calls_frame: "holt_calls m qs = m"
  by (induction qs arbitrary: m) (simp_all add: holt_call_frame)

text \<open>
  C9. \<^verbatim>\<open>forecast\<close>, \<^verbatim>\<open>getConfidenceIntervals\<close> and \<^verbatim>\<open>getStats\<close> leave the forecaster as
  it was: level, trend, residuals and training data, and every other field. After any
  sequence of such calls a call answers what it would have answered before them.
\<close>

theorem read_only_after_fit:
  "snd (HoltForecaster_forecast m steps) = m
   \<and> snd (getConfidenceIntervals m steps conf) = m
   \<and> snd (HoltForecaster_getStats m) = m
   \<and> holt_calls m qs = m
   \<and> level (holt_calls m qs) = level m \<and> trend (holt_calls m qs) = trend m
   \<and> residuals (holt_calls m qs) = residuals m \<and> trainData (holt_calls m qs) = trainData m
   \<and> fst (holt_call (holt_calls m qs) q) = fst (holt_call m q)"
  by (simp add: forecast_frame intervals_frame stats_frame holt_calls_frame)

subsection \<open>Dictionaries\<close>

lemma upsert_keys: "fst ` set (upsert k f kvs) = insert k (fst ` set kvs)"
  by (induction k f kvs rule: upsert.induct) auto

lemma upsert_distinct: "distinct (map fst kvs) \<Longrightarrow> distinct (map fst (upsert k f kvs))"
proof (induction k f kvs rule: upsert.induct)
  case (1 k f)
  then show ?case by simp
next
  case (2 k f k' v kvs)
  have "k' \<notin> fst ` set (upsert k f kvs)" if "k' \<noteq> k"
    using that 2 by (simp add: upsert_keys)
  with 2 show ?case by auto
qed

lemma upsert_const_entry:
  "(k', x) \<in> set (upsert k (\<lambda>_. v) kvs) \<Longrightarrow> x = v \<or> (k', x) \<in> set kvs"
  by (induction kvs) (auto split: if_splits)

lemma upsert_const_values: "snd ` set (upsert k (\<lambda>_. v) kvs) \<subseteq> insert v (snd ` set kvs)"
  using upsert_const_entry[of _ _ k v kvs] by force

lemma upsert_existing_keys: "k \<in> fst ` set kvs \<Longrightarrow> map fst (upsert k h kvs) = map fst kvs"
  by (induction k h kvs rule: upsert.induct) auto

lemma upsert_new: "k \<notin> fst ` set kvs \<Longrightarrow> upsert k h kvs = kvs @ [(k, h None)]"
  by (induction k h kvs rule: upsert.induct) auto

lemma map_of_upsert:
  "map_of (upsert k h kvs) k' = (if k' = k then Some (h (map_of kvs k)) else map_of kvs k')"
  by (induction k h kvs rule: upsert.induct) auto

lemma js_put_keys:
  "fst ` set (js_put k v obj) = (if k = ''__proto__'' then fst ` set obj else insert k (fst ` set obj))"
  by (simp add: js_put_def upsert_keys)

lemma js_put_distinct: "distinct (map fst obj) \<Longrightarrow> distinct (map fst (js_put k v obj))"
  by (simp add: js_put_def upsert_distinct)

lemma js_put_values: "snd ` set (js_put k v obj) \<subseteq> insert v (snd ` set obj)"
  using upsert_const_values[of k v obj] by (auto simp: js_put_def)

lemma upsert_const_members: "set (upsert k (\<lambda>_. v) kvs) \<subseteq> insert (k, v) (set kvs)"
  by (induction kvs) (auto split: if_splits)

lemma js_put_members: "set (js_put k v obj) \<subseteq> insert (k, v) (set obj)"
  using upsert_const_members[of k v obj] by (auto simp: js_put_def)

lemma js_put_plain: "k \<notin> set proto_names \<Longrightarrow> js_put k v obj = upsert k (\<lambda>_. v) obj"
  by (auto simp: js_put_def proto_names_def)

lemma js_get_Own: "js_get obj k = Own v \<longleftrightarrow> map_of obj k = Some v"
  by (simp add: js_get_def split: option.splits)

lemma js_get_Missing:
  "js_get obj k = Missing \<longleftrightarrow> map_of obj k = None \<and> k \<notin> set proto_names"
  by (simp add: js_get_def split: option.splits)

lemma js_get_Inherited:
  "js_get obj k = Inherited \<longleftrightarrow> map_of obj k = None \<and> k \<in> set proto_names"
  by (simp add: js_get_def split: option.splits)

lemma set_js_entries: "set (js_entries obj) = set obj"
  by (auto simp: js_entries_def)

lemma js_entries_single: "js_entries [kv] = [kv]"
  by (cases kv) (simp add: js_entries_def)

lemma js_entries_Nil: "js_entries [] = []"
  by (simp add: js_entries_def)

lemma store_all_keys:
  "fst ` set (foldl (\<lambda>ch (k, v). js_put k v ch) acc kvs)
     = fst ` set acc \<union> (fst ` set kvs - {''__proto__''})"
proof (induction kvs arbitrary: acc)
  case Nil
  then show ?case by simp
next
  case (Cons kv kvs)
  obtain k v where kv: "kv = (k, v)" by (cases kv)
  show ?case by (auto simp: kv Cons.IH js_put_keys)
qed

lemma store_all_distinct:
  "distinct (map fst acc) \<Longrightarrow> distinct (map fst (foldl (\<lambda>ch (k, v). js_put k v ch) acc kvs))"
  by (induction kvs arbitrary: acc) (auto simp: js_put_distinct split: prod.splits)

lemma store_all_values:
  "snd ` set (foldl (\<lambda>ch (k, v). js_put k v ch) acc kvs) \<subseteq> snd ` set acc \<union> snd ` set kvs"
proof (induction kvs arbitrary: acc)
  case Nil
  then show ?case by simp
next
  case (Cons kv kvs)
  obtain k v where kv: "kv = (k, v)" by (cases kv)
  have "snd ` set (foldl (\<lambda>ch (k, v). js_put k v ch) (js_put k v acc) kvs)
          \<subseteq> snd ` set (js_put k v acc) \<union> snd ` set kvs"
    by (rule Cons.IH)
  also have "\<dots> \<subseteq> insert v (snd ` set acc) \<union> snd ` set kvs"
    using js_put_values[of k v acc] by blast
  finally show ?case by (auto simp: kv)
qed

lemma store_all_members:
  "set (foldl (\<lambda>ch (k, v). js_put k v ch) acc kvs) \<subseteq> set acc \<union> set kvs"
proof (induction kvs arbitrary: acc)
  case Nil
  then show ?case by simp
next
  case (Cons kv kvs)
  obtain k v where kv: "kv = (k, v)" by (cases kv)
  have "set (foldl (\<lambda>ch (k, v). js_put k v ch) (js_put k v acc) kvs)
          \<subseteq> set (js_put k v acc) \<union> set kvs"
    by (rule Cons.IH)
  also have "\<dots> \<subseteq> insert (k, v) (set acc) \<union> set kvs"
    using js_put_members[of k v acc] by blast
  finally show ?case by (auto simp: kv)
qed

lemma js_unique_acc_set:
  "set (foldl (\<lambda>seen x. if x \<in> set seen then seen else seen @ [x]) acc xs) = set acc \<union> set xs"
  by (induction xs arbitrary: acc) auto

lemma set_js_unique: "set (js_unique xs) = set xs"
  by (simp add: js_unique_def js_unique_acc_set)

lemma js_unique_acc_distinct:
  "distinct acc \<Longrightarrow> distinct (foldl (\<lambda>seen x. if x \<in> set seen then seen else seen @ [x]) acc xs)"
  by (induction xs arbitrary: acc) auto

lemma distinct_js_unique: "distinct (js_unique xs)"
  by (simp add: js_unique_def js_unique_acc_distinct)

lemma map_throwing_all:
  "\<forall>x \<in> set xs. h x = Inr (v x) \<Longrightarrow> map_throwing h xs = Inr (map v xs)"
  by (induction xs) simp_all

lemma map_throwing_Inr:
  "map_throwing h xs = Inr ys \<Longrightarrow> list_all2 (\<lambda>x y. h x = Inr y) xs ys"
  by (induction xs arbitrary: ys) (auto split: sum.splits)

lemma keyed_fst: "fst ` set (map (\<lambda>v. (key v, sub v)) xs) = key ` set xs"
  by (induction xs) auto

lemma keyed_snd: "snd ` set (map (\<lambda>v. (key v, sub v)) xs) = sub ` set xs"
  by (induction xs) auto

lemma two_le_length:
  assumes "distinct xs" and "a \<in> set xs" and "b \<in> set xs" and "a \<noteq> b"
  shows "2 \<le> length xs"
proof -
  have "card {a, b} \<le> card (set xs)"
    using assms(2,3) by (intro card_mono) simp_all
  with assms(1,4) show ?thesis by (simp add: distinct_card)
qed

subsection \<open>ID3 tree: groups and splits\<close>

lemma push_rows_same_key:
  "k \<notin> set proto_names \<Longrightarrow> \<forall>r \<in> set data. cell_key f (cell r f) = k \<Longrightarrow>
     fold_throwing (push_row f) [(k, acc)] data = Inr [(k, acc @ data)]"
  by (induction data arbitrary: acc) (auto simp: push_row_def js_get_def)

lemma group_rows_same_key:
  assumes "\<forall>r \<in> set data. cell_key f (cell r f) = k" and "data \<noteq> []"
    and "k \<notin> set proto_names"
  shows "group_rows data f = Inr [(k, data)]"
proof -
  from assms(2) obtain r rest where d: "data = r # rest" by (cases data) auto
  with assms(1) have k: "cell_key f (cell r f) = k" "\<forall>r \<in> set rest. cell_key f (cell r f) = k"
    by auto
  have "push_row f [] r = Inr [(k, [r])]"
    using k(1) assms(3) by (simp add: push_row_def js_get_def js_put_plain)
  then show ?thesis
    using push_rows_same_key[OF assms(3) k(2), of "[r]"] by (simp add: group_rows_def d)
qed

lemma push_rows_plain:
  "fold_throwing (push_row f) groups data = Inr groups' \<Longrightarrow>
     fst ` set groups \<inter> set proto_names = {} \<Longrightarrow>
     (\<forall>r \<in> set data. cell_key f (cell r f) \<notin> set proto_names)"
proof (induction data arbitrary: groups)
  case Nil
  then show ?case by simp
next
  case (Cons r data)
  from Cons.prems(1) obtain groups1 where
    p: "push_row f groups r = Inr groups1"
    and rest: "fold_throwing (push_row f) groups1 data = Inr groups'"
    by (auto split: sum.splits)
  define k where "k = cell_key f (cell r f)"
  have "js_get groups k \<noteq> Inherited"
    using p by (auto simp: push_row_def k_def Let_def)
  then have plain: "k \<notin> set proto_names"
    using Cons.prems(2) by (auto simp: js_get_def split: option.splits if_splits dest!: map_of_SomeD)
  have "groups1 = upsert k (\<lambda>_. (case map_of groups k of None \<Rightarrow> [] | Some rs \<Rightarrow> rs) @ [r]) groups
          \<or> groups1 = groups"
    using p by (auto simp: push_row_def k_def[symmetric] Let_def js_put_def js_get_Own js_get_Missing
        split: lookup.splits if_splits)
  then have "fst ` set groups1 \<subseteq> insert k (fst ` set groups)"
  proof
    assume "groups1 = upsert k (\<lambda>_. (case map_of groups k of None \<Rightarrow> [] | Some rs \<Rightarrow> rs) @ [r]) groups"
    then show ?thesis by (simp only: upsert_keys)
  next
    assume "groups1 = groups"
    then show ?thesis by auto
  qed
  with plain Cons.prems(2) have "fst ` set groups1 \<inter> set proto_names = {}" by blast
  from Cons.IH[OF rest this] plain show ?case by (simp add: k_def)
qed

lemma group_rows_plain:
  "group_rows data f = Inr groups \<Longrightarrow> \<forall>r \<in> set data. cell_key f (cell r f) \<notin> set proto_names"
  using push_rows_plain[of f "[]" data groups] by (simp add: group_rows_def)

lemma push_rows_returns:
  "\<forall>r \<in> set data. cell_key f (cell r f) \<notin> set proto_names \<Longrightarrow>
     \<exists>groups'. fold_throwing (push_row f) groups data = Inr groups'"
proof (induction data arbitrary: groups)
  case Nil
  then show ?case by simp
next
  case (Cons r data)
  then have "js_get groups (cell_key f (cell r f)) \<noteq> Inherited"
    by (simp add: js_get_Inherited)
  then obtain groups1 where "push_row f groups r = Inr groups1"
    by (cases "js_get groups (cell_key f (cell r f))") (auto simp: push_row_def Let_def)
  with Cons show ?case by simp
qed

lemma gain_returns:
  "\<forall>r \<in> set data. cell_key f (cell r f) \<notin> set proto_names \<Longrightarrow>
     \<exists>g. calculateInformationGain data f target = Inr g"
  using push_rows_returns[of data f "[]"]
  by (auto simp: calculateInformationGain_def group_rows_def Let_def)

lemma gain_zero_single_value:
  assumes "\<forall>r \<in> set data. cell_key f (cell r f) = k"
    and "calculateInformationGain data f target = Inr g"
  shows "g = 0"
proof (cases "data = []")
  case True
  with assms(2) show ?thesis
    by (simp add: calculateInformationGain_def group_rows_def calculateEntropy_def js_entries_Nil)
next
  case False
  from assms(2) obtain groups where g: "group_rows data f = Inr groups"
    by (auto simp: calculateInformationGain_def Let_def split: sum.splits)
  from False obtain r where "r \<in> set data" by (cases data) auto
  with group_rows_plain[OF g] assms(1) have "k \<notin> set proto_names" by auto
  from group_rows_same_key[OF assms(1) False this] assms(2) False show ?thesis
    by (simp add: calculateInformationGain_def Let_def js_entries_single)
qed

lemma two_keys_of_gain:
  assumes "calculateInformationGain data f target = Inr g" and "0 < g"
  shows "\<exists>r1 \<in> set data. \<exists>r2 \<in> set data. cell_key f (cell r1 f) \<noteq> cell_key f (cell r2 f)"
proof (rule ccontr)
  assume no: "\<not> ?thesis"
  have "\<forall>r \<in> set data. cell_key f (cell r f) = cell_key f (cell (hd data) f)"
  proof
    fix r assume r: "r \<in> set data"
    then have "hd data \<in> set data" by (cases data) auto
    with no r show "cell_key f (cell r f) = cell_key f (cell (hd data) f)" by blast
  qed
  from gain_zero_single_value[OF this assms(1)] assms(2) show False by simp
qed

lemma findBestFeature_acc:
  "fold_throwing (better_feature data target) best0 feats = Inr (Some (f, g))
   \<Longrightarrow> best0 = Some (f, g) \<or> (f \<in> set feats \<and> calculateInformationGain data f target = Inr g)"
proof (induction feats arbitrary: best0)
  case Nil
  then show ?case by simp
next
  case (Cons a feats)
  from Cons.prems obtain best1 where
    b: "better_feature data target best0 a = Inr best1"
    and rest: "fold_throwing (better_feature data target) best1 feats = Inr (Some (f, g))"
    by (auto split: sum.splits)
  from Cons.IH[OF rest] b show ?case
    by (auto simp: better_feature_def split: sum.splits option.splits prod.splits if_splits)
qed

lemma findBestFeature_gain:
  assumes "findBestFeature data feats target = Inr (Some (f, g))"
  shows "f \<in> set feats \<and> calculateInformationGain data f target = Inr g"
  using findBestFeature_acc[of data target None feats f g] assms
  by (simp add: findBestFeature_def)

lemma findBestFeature_acc_returns:
  "\<forall>f \<in> set feats. \<forall>r \<in> set data. cell_key f (cell r f) \<notin> set proto_names \<Longrightarrow>
     \<exists>best. fold_throwing (better_feature data target) best0 feats = Inr best"
proof (induction feats arbitrary: best0)
  case Nil
  then show ?case by simp
next
  case (Cons a feats)
  then have "\<forall>r \<in> set data. cell_key a (cell r a) \<notin> set proto_names" by simp
  from gain_returns[OF this, of target] obtain g where
    "calculateInformationGain data a target = Inr g" by blast
  then obtain best1 where "better_feature data target best0 a = Inr best1"
    by (simp add: better_feature_def)
  with Cons show ?case by simp
qed

lemma findBestFeature_returns:
  "\<forall>f \<in> set feats. \<forall>r \<in> set data. cell_key f (cell r f) \<notin> set proto_names \<Longrightarrow>
     \<exists>best. findBestFeature data feats target = Inr best"
  unfolding findBestFeature_def by (rule findBestFeature_acc_returns)

lemma majority_total: "snd (snd (getMajorityClass data target)) = length data"
  by (simp add: getMajorityClass_def Let_def split: prod.splits)

lemma map_throwing_total:
  "\<forall>x \<in> set xs. \<exists>y. h x = Inr y \<Longrightarrow> \<exists>ys. map_throwing h xs = Inr ys"
proof (induction xs)
  case Nil
  then show ?case by simp
next
  case (Cons x xs)
  then obtain y ys where "h x = Inr y" "map_throwing h xs = Inr ys" by auto
  then show ?case by simp
qed

lemma map_throwing_sources:
  "map_throwing h xs = Inr ys \<Longrightarrow> \<forall>y \<in> set ys. \<exists>x \<in> set xs. h x = Inr y"
  by (induction xs arbitrary: ys) (auto split: sum.splits)

lemma map_throwing_images:
  "map_throwing h xs = Inr ys \<Longrightarrow> \<forall>x \<in> set xs. \<exists>y \<in> set ys. h x = Inr y"
  by (induction xs arbitrary: ys) (auto split: sum.splits)

lemma plain_values_iff:
  "plain_values data feats
     \<longleftrightarrow> (\<forall>r \<in> set data. \<forall>f \<in> set feats. cell_key f (cell r f) \<notin> set proto_names)"
  by (simp add: plain_values_def list_all_iff)

lemma buildTree_shape:
  "(\<exists>lbl conf n dst. buildTree data feats target depth md = Inr (Leaf lbl conf n dst))
   \<or> (\<exists>e. findBestFeature data feats target = Inl e \<and> buildTree data feats target depth md = Inl e)
   \<or> (\<exists>f g. findBestFeature data feats target = Inr (Some (f, g)) \<and> 0 < g \<and> depth < md
          \<and> data \<noteq> []
          \<and> real (fst (snd (getMajorityClass data target)))
                / real (snd (snd (getMajorityClass data target))) \<noteq> 1
          \<and> feats \<noteq> []
          \<and> buildTree data feats target depth md =
               (case map_throwing
                       (\<lambda>v. case buildTree (filter (\<lambda>r. cell r f = v) data)
                                    (filter (\<lambda>x. x \<noteq> f) feats) target (depth + 1) md of
                               Inl e \<Rightarrow> Inl e
                             | Inr subtree \<Rightarrow> Inr (cell_key f v, subtree))
                       (js_unique (map (\<lambda>r. cell r f) data)) of
                  Inl e \<Rightarrow> Inl e
                | Inr branches \<Rightarrow>
                    Inr (Node f g (length data)
                           (foldl (\<lambda>ch (k, subtree). js_put k subtree ch) [] branches)
                           (fst (getMajorityClass data target)))))"
proof -
  define c where "c = real (fst (snd (getMajorityClass data target)))
                        / real (snd (snd (getMajorityClass data target)))"
  define lf where "lf = Leaf (fst (getMajorityClass data target)) c (length data)
                          (Some (getClassDistribution data target))"
  have unfold: "buildTree data feats target depth md =
     (if length data = 0 then Inr (Leaf (Some ''Unknown'') 0 0 None)
      else if c = 1 \<or> depth \<ge> md \<or> length feats = 0 then Inr lf
      else case findBestFeature data feats target of
             Inl e \<Rightarrow> Inl e
           | Inr None \<Rightarrow> Inr lf
           | Inr (Some (bestFeature, gain)) \<Rightarrow>
               if gain \<le> 0 then Inr lf
               else case map_throwing
                       (\<lambda>v. case buildTree (filter (\<lambda>r. cell r bestFeature = v) data)
                                    (filter (\<lambda>x. x \<noteq> bestFeature) feats) target (depth + 1) md of
                               Inl e \<Rightarrow> Inl e
                             | Inr subtree \<Rightarrow> Inr (cell_key bestFeature v, subtree))
                       (js_unique (map (\<lambda>r. cell r bestFeature) data)) of
                      Inl e \<Rightarrow> Inl e
                    | Inr branches \<Rightarrow>
                        Inr (Node bestFeature gain (length data)
                               (foldl (\<lambda>ch (k, subtree). js_put k subtree ch) [] branches)
                               (fst (getMajorityClass data target))))"
    unfolding c_def lf_def
    by (subst buildTree.simps) (simp only: Let_def majority_total)
  show ?thesis
  proof (cases "length data = 0 \<or> c = 1 \<or> md \<le> depth \<or> length feats = 0")
    case True
    then show ?thesis unfolding unfold by (auto simp: lf_def)
  next
    case stop: False
    show ?thesis
    proof (cases "findBestFeature data feats target")
      case (Inl e)
      with stop show ?thesis unfolding unfold by simp
    next
      case (Inr best)
      show ?thesis
      proof (cases best)
        case None
        with stop Inr show ?thesis unfolding unfold by (simp add: lf_def)
      next
        case (Some fg)
        obtain f g where fg: "fg = (f, g)" by (cases fg)
        show ?thesis
        proof (cases "g \<le> 0")
          case True
          with stop Inr Some fg show ?thesis unfolding unfold by (simp add: lf_def)
        next
          case False
          have "buildTree data feats target depth md =
               (case map_throwing
                       (\<lambda>v. case buildTree (filter (\<lambda>r. cell r f = v) data)
                                    (filter (\<lambda>x. x \<noteq> f) feats) target (depth + 1) md of
                               Inl e \<Rightarrow> Inl e
                             | Inr subtree \<Rightarrow> Inr (cell_key f v, subtree))
                       (js_unique (map (\<lambda>r. cell r f) data)) of
                  Inl e \<Rightarrow> Inl e
                | Inr branches \<Rightarrow>
                    Inr (Node f g (length data)
                           (foldl (\<lambda>ch (k, subtree). js_put k subtree ch) [] branches)
                           (fst (getMajorityClass data target))))"
            using stop Inr Some fg False unfolding unfold by simp
          moreover have "0 < g" "depth < md" "data \<noteq> []" "feats \<noteq> []"
            and "real (fst (snd (getMajorityClass data target)))
                   / real (snd (snd (getMajorityClass data target))) \<noteq> 1"
            using stop False by (simp_all add: c_def)
          ultimately show ?thesis using Inr Some fg by blast
        qed
      qed
    qed
  qed
qed

lemma tree_invariant_Leaf: "tree_invariant md d (Leaf lbl conf n dst) = (d \<le> md)"
  by (subst tree_invariant.simps) simp

lemma tree_invariant_Node:
  "tree_invariant md d (Node f g n ch dflt) =
     (d \<le> md \<and> 2 \<le> length ch \<and> distinct (map fst ch)
      \<and> (\<forall>c \<in> snd ` set ch. tree_invariant md (Suc d) c))"
  by (subst tree_invariant.simps) auto

text \<open>
  The children of a decision node: one for each value of the feature, under distinct keys
  none of which is inherited, and each grown from the rows with that value.
\<close>

lemma children_of_split:
  fixes h :: "string lookup \<Rightarrow> error + string \<times> id3_tree"
  assumes gain: "calculateInformationGain data f target = Inr g" and pos: "0 < g"
    and br: "map_throwing h (js_unique (map (\<lambda>r. cell r f) data)) = Inr branches"
    and keys_of: "\<forall>v k sub. h v = Inr (k, sub) \<longrightarrow> k = cell_key f v"
  defines "ch \<equiv> foldl (\<lambda>ch (k, subtree). js_put k subtree ch) [] branches"
  shows "distinct (map fst ch)" and "2 \<le> length ch"
    and "fst ` set ch \<inter> set proto_names = {}"
    and "\<forall>(k, c) \<in> set ch. \<exists>v. h v = Inr (k, c)"
proof -
  have key: "k = cell_key f v" if "h v = Inr (k, sub)" for v k sub
    using keys_of that by blast
  show d: "distinct (map fst ch)"
    unfolding ch_def by (rule store_all_distinct) simp
  from gain obtain groups where "group_rows data f = Inr groups"
    by (auto simp: calculateInformationGain_def Let_def split: sum.splits)
  from group_rows_plain[OF this]
  have plain: "\<forall>r \<in> set data. cell_key f (cell r f) \<notin> set proto_names" .
  have bk: "fst ` set branches = cell_key f ` (\<lambda>r. cell r f) ` set data"
  proof
    show "fst ` set branches \<subseteq> cell_key f ` (\<lambda>r. cell r f) ` set data"
    proof
      fix k assume "k \<in> fst ` set branches"
      then obtain sub where "(k, sub) \<in> set branches" by auto
      with map_throwing_sources[OF br] obtain v where
        v: "v \<in> set (js_unique (map (\<lambda>r. cell r f) data))" "h v = Inr (k, sub)" by blast
      from key[OF v(2)] v(1) show "k \<in> cell_key f ` (\<lambda>r. cell r f) ` set data"
        by (auto simp: set_js_unique)
    qed
    show "cell_key f ` (\<lambda>r. cell r f) ` set data \<subseteq> fst ` set branches"
    proof
      fix k assume "k \<in> cell_key f ` (\<lambda>r. cell r f) ` set data"
      then obtain r where r: "r \<in> set data" "k = cell_key f (cell r f)" by auto
      then have "cell r f \<in> set (js_unique (map (\<lambda>r. cell r f) data))"
        by (simp add: set_js_unique)
      with map_throwing_images[OF br] obtain b where b: "b \<in> set branches" "h (cell r f) = Inr b"
        by blast
      obtain k' sub where "b = (k', sub)" by (cases b)
      with key[of "cell r f" k' sub] b r show "k \<in> fst ` set branches" by force
    qed
  qed
  have "''__proto__'' \<in> set proto_names" by (simp add: proto_names_def)
  with plain bk have "''__proto__'' \<notin> fst ` set branches" by auto
  then have keys: "fst ` set ch = cell_key f ` (\<lambda>r. cell r f) ` set data"
    unfolding ch_def store_all_keys bk[symmetric] by simp
  with plain show "fst ` set ch \<inter> set proto_names = {}" by auto
  from two_keys_of_gain[OF gain pos] obtain r1 r2 where r: "r1 \<in> set data" "r2 \<in> set data"
      "cell_key f (cell r1 f) \<noteq> cell_key f (cell r2 f)" by blast
  have "cell_key f (cell r1 f) \<in> set (map fst ch)" "cell_key f (cell r2 f) \<in> set (map fst ch)"
    using r(1,2) keys by auto
  from two_le_length[OF d this r(3)] show "2 \<le> length ch" by simp
  show "\<forall>(k, c) \<in> set ch. \<exists>v. h v = Inr (k, c)"
  proof (clarify)
    fix k c assume kc: "(k, c) \<in> set ch"
    have "set ch \<subseteq> set branches"
      unfolding ch_def using store_all_members[of "[]" branches] by simp
    with kc have "(k, c) \<in> set branches" by auto
    with map_throwing_sources[OF br] show "\<exists>v. h v = Inr (k, c)" by blast
  qed
qed

lemma buildTree_invariant:
  "buildTree data feats target depth md = Inr t \<Longrightarrow> depth \<le> md \<Longrightarrow> tree_invariant md depth t"
proof (induction data feats target depth md arbitrary: t rule: buildTree.induct)
  case (1 data features targetColumn depth maxDepth)
  from buildTree_shape[of data features targetColumn depth maxDepth] show ?case
  proof (elim disjE exE conjE)
    fix lbl conf n dst
    assume "buildTree data features targetColumn depth maxDepth = Inr (Leaf lbl conf n dst)"
    with "1.prems" show ?thesis by (auto simp: tree_invariant_Leaf)
  next
    fix e
    assume "buildTree data features targetColumn depth maxDepth = Inl e"
    with "1.prems" show ?thesis by simp
  next
    fix f :: string and g :: real
    define h where "h = (\<lambda>v. case buildTree (filter (\<lambda>r. cell r f = v) data)
                                 (filter (\<lambda>x. x \<noteq> f) features) targetColumn (depth + 1) maxDepth of
                            Inl e \<Rightarrow> Inl e
                          | Inr subtree \<Rightarrow> Inr (cell_key f v, subtree))"
    assume best: "findBestFeature data features targetColumn = Inr (Some (f, g))" and g: "0 < g"
      and d: "depth < maxDepth" and ne: "data \<noteq> []"
      and conf: "real (fst (snd (getMajorityClass data targetColumn)))
                      / real (snd (snd (getMajorityClass data targetColumn))) \<noteq> 1"
      and fs: "features \<noteq> []"
      and eq: "buildTree data features targetColumn depth maxDepth =
               (case map_throwing
                       (\<lambda>v. case buildTree (filter (\<lambda>r. cell r f = v) data)
                                    (filter (\<lambda>x. x \<noteq> f) features) targetColumn (depth + 1) maxDepth of
                               Inl e \<Rightarrow> Inl e
                             | Inr subtree \<Rightarrow> Inr (cell_key f v, subtree))
                       (js_unique (map (\<lambda>r. cell r f) data)) of
                  Inl e \<Rightarrow> Inl e
                | Inr branches \<Rightarrow>
                    Inr (Node f g (length data)
                           (foldl (\<lambda>ch (k, subtree). js_put k subtree ch) [] branches)
                           (fst (getMajorityClass data targetColumn))))"
    from eq "1.prems"(1) obtain branches where
      br': "map_throwing h (js_unique (map (\<lambda>r. cell r f) data)) = Inr branches"
      and t0: "t = Node f g (length data)
                      (foldl (\<lambda>ch (k, subtree). js_put k subtree ch) [] branches)
                      (fst (getMajorityClass data targetColumn))"
      unfolding h_def by (auto split: sum.splits)
    define ch where "ch = foldl (\<lambda>ch (k, subtree). js_put k subtree ch) [] branches"
    have t': "t = Node f g (length data) ch (fst (getMajorityClass data targetColumn))"
      unfolding ch_def by (rule t0)
    have key: "\<forall>v k sub. h v = Inr (k, sub) \<longrightarrow> k = cell_key f v"
      by (auto simp: h_def split: sum.splits)
    from findBestFeature_gain[OF best]
    have gain: "calculateInformationGain data f targetColumn = Inr g" by simp
    from children_of_split[OF gain g br' key]
    have c1: "distinct (map fst ch)" and c2: "2 \<le> length ch"
      and c4: "\<forall>(k, c) \<in> set ch. \<exists>v. h v = Inr (k, c)"
      unfolding ch_def by blast+
    have stop: "\<not> (real (fst (snd (getMajorityClass data targetColumn)))
                      / real (snd (snd (getMajorityClass data targetColumn))) = 1
                    \<or> maxDepth \<le> depth \<or> length features = 0)"
      using conf d fs by simp
    have "\<forall>c \<in> snd ` set ch. tree_invariant maxDepth (Suc depth) c"
    proof
      fix c assume "c \<in> snd ` set ch"
      then obtain k where "(k, c) \<in> set ch" by auto
      with c4 obtain v where "h v = Inr (k, c)" by blast
      then have sub: "buildTree (filter (\<lambda>r. cell r f = v) data) (filter (\<lambda>x. x \<noteq> f) features)
                        targetColumn (depth + 1) maxDepth = Inr c"
        by (auto simp: h_def split: sum.splits)
      have "tree_invariant maxDepth (depth + 1) c"
      proof (rule "1.IH"[OF _ refl refl refl refl stop best refl refl _ refl refl sub])
        show "length data \<noteq> 0" using ne by simp
        show "\<not> g \<le> 0" using g by simp
        show "depth + 1 \<le> maxDepth" using d by simp
      qed
      then show "tree_invariant maxDepth (Suc depth) c" by simp
    qed
    with c1 c2 d show ?thesis
      unfolding t' tree_invariant_Node by simp
  qed
qed

lemma buildTree_returns:
  "plain_values data feats \<Longrightarrow> \<exists>t. buildTree data feats target depth md = Inr t"
proof (induction data feats target depth md rule: buildTree.induct)
  case (1 data features targetColumn depth maxDepth)
  from "1.prems" have plain:
    "\<forall>f \<in> set features. \<forall>r \<in> set data. cell_key f (cell r f) \<notin> set proto_names"
    by (auto simp: plain_values_iff)
  from buildTree_shape[of data features targetColumn depth maxDepth] show ?case
  proof (elim disjE exE conjE)
    fix lbl conf n dst
    assume "buildTree data features targetColumn depth maxDepth = Inr (Leaf lbl conf n dst)"
    then show ?thesis by simp
  next
    fix e
    assume "findBestFeature data features targetColumn = Inl e"
    with findBestFeature_returns[OF plain, of targetColumn] show ?thesis by simp
  next
    fix f :: string and g :: real
    define h where "h = (\<lambda>v. case buildTree (filter (\<lambda>r. cell r f = v) data)
                                 (filter (\<lambda>x. x \<noteq> f) features) targetColumn (depth + 1) maxDepth of
                            Inl e \<Rightarrow> Inl e
                          | Inr subtree \<Rightarrow> Inr (cell_key f v, subtree))"
    assume best: "findBestFeature data features targetColumn = Inr (Some (f, g))" and g: "0 < g"
      and d: "depth < maxDepth" and ne: "data \<noteq> []"
      and conf: "real (fst (snd (getMajorityClass data targetColumn)))
                      / real (snd (snd (getMajorityClass data targetColumn))) \<noteq> 1"
      and fs: "features \<noteq> []"
      and eq: "buildTree data features targetColumn depth maxDepth =
               (case map_throwing
                       (\<lambda>v. case buildTree (filter (\<lambda>r. cell r f = v) data)
                                    (filter (\<lambda>x. x \<noteq> f) features) targetColumn (depth + 1) maxDepth of
                               Inl e \<Rightarrow> Inl e
                             | Inr subtree \<Rightarrow> Inr (cell_key f v, subtree))
                       (js_unique (map (\<lambda>r. cell r f) data)) of
                  Inl e \<Rightarrow> Inl e
                | Inr branches \<Rightarrow>
                    Inr (Node f g (length data)
                           (foldl (\<lambda>ch (k, subtree). js_put k subtree ch) [] branches)
                           (fst (getMajorityClass data targetColumn))))"
    have stop: "\<not> (real (fst (snd (getMajorityClass data targetColumn)))
                      / real (snd (snd (getMajorityClass data targetColumn))) = 1
                    \<or> maxDepth \<le> depth \<or> length features = 0)"
      using conf d fs by simp
    have sub: "\<exists>t. buildTree (filter (\<lambda>r. cell r f = v) data) (filter (\<lambda>x. x \<noteq> f) features)
                     targetColumn (depth + 1) maxDepth = Inr t" for v
    proof (rule "1.IH"[OF _ refl refl refl refl stop best refl refl _ refl refl])
      show "length data \<noteq> 0" using ne by simp
      show "\<not> g \<le> 0" using g by simp
      show "plain_values (filter (\<lambda>r. cell r f = v) data) (filter (\<lambda>x. x \<noteq> f) features)"
        using "1.prems" by (auto simp: plain_values_iff)
    qed
    have "\<forall>v \<in> set (js_unique (map (\<lambda>r. cell r f) data)). \<exists>y. h v = Inr y"
    proof
      fix v
      from sub[of v] obtain t where
        "buildTree (filter (\<lambda>r. cell r f = v) data) (filter (\<lambda>x. x \<noteq> f) features)
           targetColumn (depth + 1) maxDepth = Inr t" by blast
      then show "\<exists>y. h v = Inr y" by (simp add: h_def)
    qed
    from map_throwing_total[OF this] obtain branches where
      "map_throwing h (js_unique (map (\<lambda>r. cell r f) data)) = Inr branches" by blast
    with eq show ?thesis by (simp add: h_def)
  qed
qed

subsection \<open>ID3 tree: prediction\<close>

lemma visits_predict: "visits sample t u \<Longrightarrow> predict t sample = predict u sample"
  by (induction rule: visits.induct) simp_all

lemma unseen_value_default:
  assumes "visits sample t (Node f g n ch dflt)"
    and "js_get ch (cell_key f (cell sample f)) = Missing"
  shows "predict t sample = Inr \<lparr>predicted = dflt, confidence = 1 / 2, distribution = Some []\<rparr>"
  using visits_predict[OF assms(1)] assms(2) by simp

lemma inherited_value_throws:
  assumes "visits sample t (Node f g n ch dflt)"
    and "js_get ch (cell_key f (cell sample f)) = Inherited"
  shows "predict t sample = Inl TypeError"
  using visits_predict[OF assms(1)] assms(2) by simp

lemma built_node:
  assumes t: "buildTree data feats target depth md = Inr (Node f g n ch dflt)"
  shows "dflt = fst (getMajorityClass data target)"
    and "fst ` set ch \<inter> set proto_names = {}"
    and "\<forall>(k, c) \<in> set ch. \<exists>v. buildTree (filter (\<lambda>r. cell r f = v) data)
                                    (filter (\<lambda>x. x \<noteq> f) feats) target (depth + 1) md = Inr c"
proof -
  define h where "h = (\<lambda>v. case buildTree (filter (\<lambda>r. cell r f = v) data)
                               (filter (\<lambda>x. x \<noteq> f) feats) target (depth + 1) md of
                          Inl e \<Rightarrow> Inl e
                        | Inr subtree \<Rightarrow> Inr (cell_key f v, subtree))"
  have "\<exists>branches. findBestFeature data feats target = Inr (Some (f, g)) \<and> 0 < g
          \<and> map_throwing h (js_unique (map (\<lambda>r. cell r f) data)) = Inr branches
          \<and> ch = foldl (\<lambda>ch (k, subtree). js_put k subtree ch) [] branches
          \<and> dflt = fst (getMajorityClass data target)"
    using buildTree_shape[of data feats target depth md]
  proof (elim disjE exE conjE)
    fix lbl conf n' dst
    assume "buildTree data feats target depth md = Inr (Leaf lbl conf n' dst)"
    with t show ?thesis by simp
  next
    fix e
    assume "buildTree data feats target depth md = Inl e"
    with t show ?thesis by simp
  next
    fix f' :: string and g' :: real
    assume best: "findBestFeature data feats target = Inr (Some (f', g'))" and g: "0 < g'"
      and eq: "buildTree data feats target depth md =
               (case map_throwing
                       (\<lambda>v. case buildTree (filter (\<lambda>r. cell r f' = v) data)
                                    (filter (\<lambda>x. x \<noteq> f') feats) target (depth + 1) md of
                               Inl e \<Rightarrow> Inl e
                             | Inr subtree \<Rightarrow> Inr (cell_key f' v, subtree))
                       (js_unique (map (\<lambda>r. cell r f') data)) of
                  Inl e \<Rightarrow> Inl e
                | Inr branches \<Rightarrow>
                    Inr (Node f' g' (length data)
                           (foldl (\<lambda>ch (k, subtree). js_put k subtree ch) [] branches)
                           (fst (getMajorityClass data target))))"
    from eq t obtain branches where
      "map_throwing
         (\<lambda>v. case buildTree (filter (\<lambda>r. cell r f' = v) data)
                      (filter (\<lambda>x. x \<noteq> f') feats) target (depth + 1) md of
                 Inl e \<Rightarrow> Inl e
               | Inr subtree \<Rightarrow> Inr (cell_key f' v, subtree))
         (js_unique (map (\<lambda>r. cell r f') data)) = Inr branches"
      and "Node f g n ch dflt = Node f' g' (length data)
                           (foldl (\<lambda>ch (k, subtree). js_put k subtree ch) [] branches)
                           (fst (getMajorityClass data target))"
      by (auto split: sum.splits)
    with best g show ?thesis unfolding h_def by auto
  qed
  then obtain branches where
    best: "findBestFeature data feats target = Inr (Some (f, g))" and g: "0 < g"
    and br: "map_throwing h (js_unique (map (\<lambda>r. cell r f) data)) = Inr branches"
    and ch: "ch = foldl (\<lambda>ch (k, subtree). js_put k subtree ch) [] branches"
    and dflt: "dflt = fst (getMajorityClass data target)"
    by blast
  show "dflt = fst (getMajorityClass data target)" by (rule dflt)
  have key: "\<forall>v k sub. h v = Inr (k, sub) \<longrightarrow> k = cell_key f v"
    by (auto simp: h_def split: sum.splits)
  from findBestFeature_gain[OF best]
  have gain: "calculateInformationGain data f target = Inr g" by simp
  from children_of_split[OF gain g br key]
  have c3: "fst ` set ch \<inter> set proto_names = {}"
    and c4: "\<forall>(k, c) \<in> set ch. \<exists>v. h v = Inr (k, c)"
    unfolding ch by blast+
  show "fst ` set ch \<inter> set proto_names = {}" by (rule c3)
  show "\<forall>(k, c) \<in> set ch. \<exists>v. buildTree (filter (\<lambda>r. cell r f = v) data)
                                    (filter (\<lambda>x. x \<noteq> f) feats) target (depth + 1) md = Inr c"
  proof (clarify)
    fix k c assume "(k, c) \<in> set ch"
    with c4 obtain v where "h v = Inr (k, c)" by blast
    then have "buildTree (filter (\<lambda>r. cell r f = v) data) (filter (\<lambda>x. x \<noteq> f) feats)
                 target (depth + 1) md = Inr c"
      by (auto simp: h_def split: sum.splits)
    then show "\<exists>v. buildTree (filter (\<lambda>r. cell r f = v) data) (filter (\<lambda>x. x \<noteq> f) feats)
                 target (depth + 1) md = Inr c" by blast
  qed
qed

lemma built_visits:
  assumes "visits sample t u" and "buildTree data feats target depth md = Inr t"
  shows "\<exists>subset fs d. set subset \<subseteq> set data \<and> buildTree subset fs target d md = Inr u"
  using assms
proof (induction rule: visits.induct)
  case (root t)
  then show ?case by blast
next
  case (child t f g n ch dflt c)
  then obtain subset fs d where s: "set subset \<subseteq> set data"
      and n: "buildTree subset fs target d md = Inr (Node f g n ch dflt)"
    by blast
  from child.hyps(2) have "(cell_key f (cell sample f), c) \<in> set ch"
    by (simp add: js_get_Own map_of_SomeD)
  with built_node(3)[OF n] obtain v where
    "buildTree (filter (\<lambda>r. cell r f = v) subset) (filter (\<lambda>x. x \<noteq> f) fs) target (d + 1) md = Inr c"
    by blast
  moreover have "set (filter (\<lambda>r. cell r f = v) subset) \<subseteq> set data" using s by auto
  ultimately show ?case by blast
qed

text \<open>
  What \<^verbatim>\<open>predict\<close> does at a decision node of a tree grown by \<^verbatim>\<open>buildTree\<close> that has no
  branch for the sample's value: the fallback, with the majority label of the rows the node
  was grown from, unless the value is named like an inherited property, where it throws.
\<close>

lemma unseen_value_in_grown_tree:
  assumes "buildTree data feats target depth md = Inr t"
    and "visits sample t (Node f g n ch dflt)"
    and "map_of ch (cell_key f (cell sample f)) = None"
  shows "predict t sample =
           (if cell_key f (cell sample f) \<in> set proto_names then Inl TypeError
            else Inr \<lparr>predicted = dflt, confidence = 1 / 2, distribution = Some []\<rparr>)"
    and "\<exists>subset fs d. set subset \<subseteq> set data
            \<and> buildTree subset fs target d md = Inr (Node f g n ch dflt)
            \<and> dflt = fst (getMajorityClass subset target)"
proof -
  show "predict t sample =
           (if cell_key f (cell sample f) \<in> set proto_names then Inl TypeError
            else Inr \<lparr>predicted = dflt, confidence = 1 / 2, distribution = Some []\<rparr>)"
    using visits_predict[OF assms(2)] assms(3) by (simp add: js_get_def)
  from built_visits[OF assms(2,1)] obtain subset fs d where
    s: "set subset \<subseteq> set data" and n: "buildTree subset fs target d md = Inr (Node f g n ch dflt)"
    by blast
  from built_node(1)[OF n] s n
  show "\<exists>subset fs d. set subset \<subseteq> set data
            \<and> buildTree subset fs target d md = Inr (Node f g n ch dflt)
            \<and> dflt = fst (getMajorityClass subset target)" by blast
qed

subsection \<open>ID3 tree: the empty training set and two examples\<close>

lemmas object_simps =
  js_get_def js_put_def bump_def js_entries_def is_index_def is_digit_def index_value_def
  digit_value_def proto_names_def cell_def cell_key_def

lemma buildTree_empty:
  "buildTree [] feats target depth md = Inr (Leaf (Some ''Unknown'') 0 0 None)"
  by (subst buildTree.simps) simp

lemma shuffle_single:
  assumes "mset (shuffle [r]) = mset [r]"
  shows "shuffle [r] = [r]"
proof -
  from assms have "mset (shuffle [r]) = {#r#}" by simp
  then show ?thesis by (simp only: mset_single_iff)
qed

lemma split_single:
  assumes "mset (shuffle [r]) = mset [r]"
  shows "trainTestSplit shuffle [r] (2 / 10) = ([], [r])"
proof -
  have "\<lfloor>real (length [r]) * (1 - 2 / 10)\<rfloor> = (0::int)" by simp
  then show ?thesis
    by (simp add: trainTestSplit_def shuffle_single[where shuffle=shuffle and r=r, OF assms] js_slice_def js_rel_index_def Let_def)
qed

lemma train_single:
  assumes "mset (shuffle [r]) = mset [r]"
  shows "DecisionTreeClassifier_train shuffle m [r] feats target =
           (Inr \<lparr>result_accuracy =
                    Num (if label_matches (Some ''Unknown'') (cell r target) then 1 else 0),
                  result_trainSize = 0, result_testSize = 1, result_featureImportance = []\<rparr>,
            m\<lparr>dt_features := feats, dt_targetColumn := Some target, dt_trainSize := 0,
              dt_testSize := 1, dt_tree := Some (Leaf (Some ''Unknown'') 0 0 None),
              dt_accuracy := Num (if label_matches (Some ''Unknown'') (cell r target) then 1 else 0),
              dt_featureImportance := []\<rparr>)"
  unfolding DecisionTreeClassifier_train_def split_single[where shuffle=shuffle and r=r, OF assms]
  by (simp add: Let_def buildTree_empty calculateAccuracy_def count_correct_def
      total_importance_def js_entries_Nil)

lemma log2_half: "log 2 (1 / 2) = - 1"
  using log_divide[of 2 1 2] by simp

lemma coffee_counts:
  "label_counts coffee_rows ''Item'' = [(''Latte'', Val 1), (''Espresso'', Val 1)]"
  by (simp add: label_counts_def coffee_rows_def object_simps)

lemma coffee_entropy: "calculateEntropy coffee_rows ''Item'' = 1"
  unfolding calculateEntropy_def coffee_counts
  by (simp add: Let_def log2_half coffee_rows_def object_simps)

lemma coffee_groups: "group_rows coffee_rows ''Day'' =
   Inr [(''Monday'', [[(''Day'', ''Monday''), (''Item'', ''Latte'')]]),
        (''Friday'', [[(''Day'', ''Friday''), (''Item'', ''Espresso'')]])]"
  by (simp add: group_rows_def push_row_def coffee_rows_def Let_def object_simps)

lemma coffee_gain: "calculateInformationGain coffee_rows ''Day'' ''Item'' = Inr 1"
  unfolding calculateInformationGain_def coffee_entropy coffee_groups
  by (simp add: Let_def calculateEntropy_def label_counts_def coffee_rows_def object_simps)

lemma coffee_leaves:
  "buildTree [[(''Day'', ''Monday''), (''Item'', ''Latte'')]] [] ''Item'' (Suc 0) 5
     = Inr (Leaf (Some ''Latte'') 1 1
              (Some [(''Latte'', \<lparr>share_count = Val 1, percentage = Num 100\<rparr>)]))"
  "buildTree [[(''Day'', ''Friday''), (''Item'', ''Espresso'')]] [] ''Item'' (Suc 0) 5
     = Inr (Leaf (Some ''Espresso'') 1 1
              (Some [(''Espresso'', \<lparr>share_count = Val 1, percentage = Num 100\<rparr>)]))"
  by (subst buildTree.simps,
      simp add: getMajorityClass_def label_counts_def Let_def getClassDistribution_def
        toFixed1_def object_simps)+

lemma coffee_build: "buildTree coffee_rows [''Day''] ''Item'' 0 5 = Inr coffee_tree"
  apply (subst buildTree.simps)
  apply (simp add: findBestFeature_def better_feature_def coffee_gain getMajorityClass_def
      coffee_counts Let_def)
  apply (simp add: coffee_rows_def js_unique_def object_simps coffee_leaves coffee_tree_def)
  done

lemma coffee_split: "trainTestSplit (\<lambda>rows. rows) coffee_rows (2 / 10) = ([hd coffee_rows], tl coffee_rows)"
proof -
  have "\<lfloor>real (length coffee_rows) * (1 - 2 / 10)\<rfloor> = (1::int)"
    by (simp add: coffee_rows_def)
  then show ?thesis
    by (simp add: trainTestSplit_def js_slice_def js_rel_index_def Let_def coffee_rows_def)
qed

lemma coffee_train:
  "fst (DecisionTreeClassifier_train (\<lambda>rows. rows) (DecisionTreeClassifier_new None) coffee_rows
          [''Day''] ''Item'')
   = Inr \<lparr>result_accuracy = Num 0, result_trainSize = 1, result_testSize = 1,
           result_featureImportance = []\<rparr>"
  unfolding DecisionTreeClassifier_train_def coffee_split
  apply (simp add: coffee_rows_def DecisionTreeClassifier_new_def Let_def)
  apply (subst buildTree.simps)
  apply (simp add: getMajorityClass_def label_counts_def Let_def getClassDistribution_def
        toFixed1_def calculateAccuracy_def count_correct_def label_matches_def
        total_importance_def object_simps)
  done

lemma odd_day_split:
  "trainTestSplit (\<lambda>rows. rows) odd_day_rows (2 / 10)
     = (coffee_rows, [[(''Day'', ''constructor''), (''Item'', ''Latte'')]])"
proof -
  have "\<lfloor>real (length odd_day_rows) * (1 - 2 / 10)\<rfloor> = (2::int)"
    by (simp add: odd_day_rows_def coffee_rows_def)
  then show ?thesis
    by (simp add: trainTestSplit_def js_slice_def js_rel_index_def Let_def odd_day_rows_def
        coffee_rows_def)
qed

lemma coffee_predictions:
  "predict coffee_tree [(''Day'', ''Monday'')]
     = Inr \<lparr>predicted = Some ''Latte'', confidence = 1,
            distribution = Some [(''Latte'', \<lparr>share_count = Val 1, percentage = Num 100\<rparr>)]\<rparr>"
  "predict coffee_tree [(''Day'', ''Sunday'')]
     = Inr \<lparr>predicted = Some ''Latte'', confidence = 1 / 2, distribution = Some []\<rparr>"
  "predict coffee_tree [(''Day'', ''constructor'')] = Inl TypeError"
  "predict coffee_tree [(''Day'', ''constructor''), (''Item'', ''Latte'')] = Inl TypeError"
  by (simp_all add: coffee_tree_def object_simps)

lemma odd_day_train:
  "DecisionTreeClassifier_train (\<lambda>rows. rows) (DecisionTreeClassifier_new None) odd_day_rows
     [''Day''] ''Item''
   = (Inl TypeError,
      \<lparr>dt_maxDepth = 5, dt_tree = Some coffee_tree, dt_features = [''Day''],
       dt_targetColumn = Some ''Item'', dt_accuracy = Num 0, dt_featureImportance = [],
       dt_trainSize = 2, dt_testSize = 1\<rparr>)"
proof -
  have "length coffee_rows = 2" by (simp add: coffee_rows_def)
  then show ?thesis
    unfolding DecisionTreeClassifier_train_def odd_day_split
    by (simp add: DecisionTreeClassifier_new_def coffee_build calculateAccuracy_def
        count_correct_def coffee_predictions Let_def)
qed

text \<open>
  C10. \<^verbatim>\<open>buildTree\<close> on no rows returns the leaf ``Unknown'' with confidence 0 and 0
  samples. Training on a single row puts that row in the test part, whatever the shuffle,
  so \<^verbatim>\<open>train\<close> returns, the tree it stores is this leaf and every prediction is ``Unknown''
  with confidence 0.
\<close>

theorem single_row_training_predicts_unknown:
  assumes "mset (shuffle [r]) = mset [r]"
  shows "buildTree [] feats target depth md = Inr (Leaf (Some ''Unknown'') 0 0 None)
         \<and> (\<exists>res. fst (DecisionTreeClassifier_train shuffle m [r] feats target) = Inr res)
         \<and> dt_tree (snd (DecisionTreeClassifier_train shuffle m [r] feats target))
             = Some (Leaf (Some ''Unknown'') 0 0 None)
         \<and> dt_trainSize (snd (DecisionTreeClassifier_train shuffle m [r] feats target)) = 0
         \<and> DecisionTreeClassifier_predict
              (snd (DecisionTreeClassifier_train shuffle m [r] feats target)) sample
             = Inr \<lparr>predicted = Some ''Unknown'', confidence = 0, distribution = None\<rparr>"
  unfolding train_single[where shuffle=shuffle and r=r, OF assms]
  by (simp add: DecisionTreeClassifier_predict_def buildTree_empty)

text \<open>C10 at one sale, with the shuffle that leaves the rows as they are.\<close>

theorem single_row_training_predicts_unknown_witness:
  "mset ((\<lambda>rows. rows) [[(''Day'', ''Monday''), (''Item'', ''Latte'')]])
     = mset [[(''Day'', ''Monday''), (''Item'', ''Latte'')]]
   \<and> buildTree [] [''Day''] ''Item'' 0 5 = Inr (Leaf (Some ''Unknown'') 0 0 None)
   \<and> (\<exists>res. fst (DecisionTreeClassifier_train (\<lambda>rows. rows) (DecisionTreeClassifier_new None)
                      [[(''Day'', ''Monday''), (''Item'', ''Latte'')]] [''Day''] ''Item'') = Inr res)
   \<and> dt_tree (snd (DecisionTreeClassifier_train (\<lambda>rows. rows) (DecisionTreeClassifier_new None)
                      [[(''Day'', ''Monday''), (''Item'', ''Latte'')]] [''Day''] ''Item''))
       = Some (Leaf (Some ''Unknown'') 0 0 None)
   \<and> DecisionTreeClassifier_predict
        (snd (DecisionTreeClassifier_train (\<lambda>rows. rows) (DecisionTreeClassifier_new None)
                [[(''Day'', ''Monday''), (''Item'', ''Latte'')]] [''Day''] ''Item''))
        [(''Day'', ''Monday'')]
       = Inr \<lparr>predicted = Some ''Unknown'', confidence = 0, distribution = None\<rparr>"
proof -
  have h: "mset ((\<lambda>rows. rows) [[(''Day'', ''Monday''), (''Item'', ''Latte'')]])
             = mset [[(''Day'', ''Monday''), (''Item'', ''Latte'')]]" by simp
  from single_row_training_predicts_unknown[where shuffle = "\<lambda>rows. rows", OF h,
      of "[''Day'']" "''Item''" 0 5 "DecisionTreeClassifier_new None" "[(''Day'', ''Monday'')]"]
  show ?thesis by simp
qed

text \<open>
  C7. The fallback of \<^verbatim>\<open>predict\<close> misses the values that are named like a property every
  object inherits. The tree grown from the two sales has the branches ``Monday'' and
  ``Friday''. For the day ``Sunday'', which matches no branch, \<^verbatim>\<open>predict\<close> returns the
  default prediction with confidence 0.5 and an empty distribution; for the day
  ``constructor'', which matches no branch either, it throws a \<^verbatim>\<open>TypeError\<close>.
\<close>

theorem inherited_name_is_no_unseen_value:
  "buildTree coffee_rows [''Day''] ''Item'' 0 5 = Inr coffee_tree
   \<and> map fst (id3_children coffee_tree) = [''Monday'', ''Friday'']
   \<and> defaultPrediction coffee_tree = Some ''Latte''
   \<and> predict coffee_tree [(''Day'', ''Sunday'')]
       = Inr \<lparr>predicted = Some ''Latte'', confidence = 1 / 2, distribution = Some []\<rparr>
   \<and> predict coffee_tree [(''Day'', ''constructor'')] = Inl TypeError"
  by (simp add: coffee_build coffee_predictions) (simp add: coffee_tree_def)

subsection \<open>Threshold trees and the forest\<close>

lemma bump_keys:
  "fst ` set (bump k counts)
     = (if k = ''__proto__'' then fst ` set counts else insert k (fst ` set counts))"
  by (simp add: bump_def js_put_keys)

lemma class_counts_acc_keys:
  "fst ` set (foldl (\<lambda>counts v. bump (key_of v) counts) acc y)
     = fst ` set acc \<union> (key_of ` set y - {''__proto__''})"
  by (induction y arbitrary: acc) (auto simp: bump_keys)

lemma class_counts_keys: "fst ` set (class_counts y) = key_of ` set y - {''__proto__''}"
  unfolding class_counts_def class_counts_acc_keys by simp

text \<open>Whatever the engine makes of an inconsistent comparison, the result is a permutation.\<close>

lemma by_count_desc_set:
  assumes "\<forall>xs. mset (engine xs) = mset xs"
  shows "set (by_count_desc engine entries) = set entries"
proof (cases "list_all (\<lambda>(k, c). c \<noteq> Junk) entries")
  case True
  then show ?thesis by (simp add: by_count_desc_def)
next
  case False
  from assms have "set (engine entries) = set entries" by (metis set_mset_mset)
  with False show ?thesis by (simp add: by_count_desc_def)
qed

lemma majorityClass_member:
  assumes "\<forall>xs. mset (engine xs) = mset xs" and "y \<noteq> []" and "''__proto__'' \<notin> key_of ` set y"
  shows "\<exists>p. majorityClass engine y = Inr p \<and> p \<in> key_of ` set y"
proof -
  define sorted_counts where "sorted_counts = by_count_desc engine (js_entries (class_counts y))"
  have s: "set sorted_counts = set (class_counts y)"
    by (simp add: sorted_counts_def by_count_desc_set[OF assms(1)] set_js_entries)
  from assms(3) have keys: "fst ` set (class_counts y) = key_of ` set y"
    unfolding class_counts_keys by simp
  from assms(2) have "key_of ` set y \<noteq> {}" by simp
  with keys have "set (class_counts y) \<noteq> {}" by (metis image_is_empty)
  with s have "set sorted_counts \<noteq> {}" by simp
  then have "sorted_counts \<noteq> []" by (simp only: set_empty not_False_eq_True)
  then obtain lbl cnt rest where c: "sorted_counts = (lbl, cnt) # rest"
    by (cases sorted_counts) auto
  with s have "(lbl, cnt) \<in> set (class_counts y)" by (metis list.set_intros(1))
  then have "fst (lbl, cnt) \<in> fst ` set (class_counts y)" by (rule imageI)
  with keys have "lbl \<in> key_of ` set y" by simp
  moreover have "majorityClass engine y = Inr lbl"
    using c by (simp add: majorityClass_def sorted_counts_def[symmetric])
  ultimately show ?thesis by blast
qed

lemma leaf_for_nonempty:
  assumes "\<forall>xs. mset (engine xs) = mset xs" and "y \<noteq> []" and "''__proto__'' \<notin> key_of ` set y"
  shows "\<exists>p. leaf_for engine y = Inr (TreeNode None None None None (Some p) True)
             \<and> p \<in> key_of ` set y"
  using majorityClass_member[OF assms] by (auto simp: leaf_for_def)

lemma leaf_for_shape:
  "leaf_for engine y = Inr node \<Longrightarrow> \<exists>p. node = TreeNode None None None None (Some p) True"
  by (auto simp: leaf_for_def split: sum.splits)

lemma try_split_both_sides:
  "both_sides X best \<Longrightarrow> both_sides X (try_split X y pg fi best t)"
  by (auto simp: try_split_def both_sides_def Let_def split: prod.splits option.splits)

lemma try_splits_both_sides:
  "both_sides X best \<Longrightarrow> both_sides X (foldl (try_split X y pg fi) best ts)"
  by (induction ts arbitrary: best) (simp_all add: try_split_both_sides)

lemma findBestSplit_acc_both_sides:
  "both_sides X best \<Longrightarrow>
     both_sides X (foldl (\<lambda>best featureIdx. foldl (try_split X y pg featureIdx) best
                             (candidate_thresholds X featureIdx)) best fis)"
  by (induction fis arbitrary: best) (simp_all add: try_splits_both_sides)

lemma findBestSplit_both_sides:
  assumes "findBestSplit X y fis = Some (f, t, g)"
  shows "fst (split_indices X f t) \<noteq> []" and "snd (split_indices X f t) \<noteq> []"
proof -
  have "both_sides X (findBestSplit X y fis)"
    unfolding findBestSplit_def Let_def
    by (rule findBestSplit_acc_both_sides) (simp add: both_sides_def)
  with assms show "fst (split_indices X f t) \<noteq> []" and "snd (split_indices X f t) \<noteq> []"
    by (simp_all add: both_sides_def)
qed

lemma split_indices_range:
  "set (fst (split_indices X f t)) \<subseteq> {0..<length X}"
  "set (snd (split_indices X f t)) \<subseteq> {0..<length X}"
  by (auto simp: split_indices_def)

lemma label_at_in_range: "i < length y \<Longrightarrow> label_at y i = y ! i"
  by (simp add: label_at_def js_nth_def)

lemma labels_of_indices:
  assumes "set idxs \<subseteq> {0..<length y}"
  shows "set (map (label_at y) idxs) \<subseteq> set y"
  using assms by (auto simp: label_at_in_range)

lemma gini_buildTree_shape:
  "gini_buildTree engine md mss X y d fis = leaf_for engine y
   \<or> (\<exists>f t g. findBestSplit X y fis = Some (f, t, g) \<and> \<not> js_le g (Num 0) \<and> d < md
         \<and> gini_buildTree engine md mss X y d fis =
             (case gini_buildTree engine md mss (map (\<lambda>i. X ! i) (fst (split_indices X f t)))
                     (map (label_at y) (fst (split_indices X f t))) (d + 1) fis of
                Inl e \<Rightarrow> Inl e
              | Inr l \<Rightarrow>
                  (case gini_buildTree engine md mss (map (\<lambda>i. X ! i) (snd (split_indices X f t)))
                          (map (label_at y) (snd (split_indices X f t))) (d + 1) fis of
                     Inl e \<Rightarrow> Inl e
                   | Inr r \<Rightarrow> Inr (TreeNode (Some f) (Some t) (Some l) (Some r) None False))))"
proof (cases "length (js_unique y) = 1 \<or> md \<le> d \<or> length y < mss")
  case True
  then show ?thesis by (subst gini_buildTree.simps) (auto simp: Let_def)
next
  case stop: False
  show ?thesis
  proof (cases "findBestSplit X y fis")
    case None
    with stop show ?thesis by (subst gini_buildTree.simps) (auto simp: Let_def)
  next
    case (Some ftg)
    obtain f t g where ftg: "ftg = (f, t, g)" by (cases ftg)
    show ?thesis
    proof (cases "js_le g (Num 0)")
      case True
      with stop Some ftg show ?thesis by (subst gini_buildTree.simps) (auto simp: Let_def)
    next
      case False
      have "gini_buildTree engine md mss X y d fis =
             (case gini_buildTree engine md mss (map (\<lambda>i. X ! i) (fst (split_indices X f t)))
                     (map (label_at y) (fst (split_indices X f t))) (d + 1) fis of
                Inl e \<Rightarrow> Inl e
              | Inr l \<Rightarrow>
                  (case gini_buildTree engine md mss (map (\<lambda>i. X ! i) (snd (split_indices X f t)))
                          (map (label_at y) (snd (split_indices X f t))) (d + 1) fis of
                     Inl e \<Rightarrow> Inl e
                   | Inr r \<Rightarrow> Inr (TreeNode (Some f) (Some t) (Some l) (Some r) None False)))"
        using stop Some ftg False by (subst gini_buildTree.simps) (auto simp: Let_def)
      with stop Some ftg False show ?thesis by auto
    qed
  qed
qed

lemma gini_built_invariant:
  "gini_buildTree engine md mss X y d fis = Inr node \<Longrightarrow> d \<le> md \<Longrightarrow> gini_invariant md d node"
proof (induction "md - d" arbitrary: X y d node)
  case 0
  then have "\<not> d < md" by simp
  with gini_buildTree_shape[of engine md mss X y d fis] "0.prems"(1)
  have "leaf_for engine y = Inr node" by auto
  from leaf_for_shape[OF this] "0.prems"(2) show ?case by auto
next
  case (Suc n)
  from gini_buildTree_shape[of engine md mss X y d fis] show ?case
  proof (elim disjE exE conjE)
    assume "gini_buildTree engine md mss X y d fis = leaf_for engine y"
    with Suc.prems(1) have "leaf_for engine y = Inr node" by simp
    from leaf_for_shape[OF this] Suc.prems(2) show ?thesis by auto
  next
    fix f t g
    assume d: "d < md"
      and eq: "gini_buildTree engine md mss X y d fis =
             (case gini_buildTree engine md mss (map (\<lambda>i. X ! i) (fst (split_indices X f t)))
                     (map (label_at y) (fst (split_indices X f t))) (d + 1) fis of
                Inl e \<Rightarrow> Inl e
              | Inr l \<Rightarrow>
                  (case gini_buildTree engine md mss (map (\<lambda>i. X ! i) (snd (split_indices X f t)))
                          (map (label_at y) (snd (split_indices X f t))) (d + 1) fis of
                     Inl e \<Rightarrow> Inl e
                   | Inr r \<Rightarrow> Inr (TreeNode (Some f) (Some t) (Some l) (Some r) None False)))"
    from eq Suc.prems(1) obtain l r where
      l: "gini_buildTree engine md mss (map (\<lambda>i. X ! i) (fst (split_indices X f t)))
                     (map (label_at y) (fst (split_indices X f t))) (d + 1) fis = Inr l"
      and r: "gini_buildTree engine md mss (map (\<lambda>i. X ! i) (snd (split_indices X f t)))
                          (map (label_at y) (snd (split_indices X f t))) (d + 1) fis = Inr r"
      and node: "node = TreeNode (Some f) (Some t) (Some l) (Some r) None False"
      by (auto split: sum.splits)
    have n: "n = md - (d + 1)" using Suc.hyps(2) by simp
    have d1: "d + 1 \<le> md" using d by simp
    from Suc.hyps(1)[OF n l d1] Suc.hyps(1)[OF n r d1] d show ?thesis
      by (simp add: node)
  qed
qed

lemma predicts_within_mono: "predicts_within L node \<Longrightarrow> L \<subseteq> M \<Longrightarrow> predicts_within M node"
  by (induction L node rule: predicts_within.induct) (auto split: option.splits if_splits)

lemma gini_built_within:
  assumes engine: "\<forall>xs. mset (engine xs) = mset xs"
  shows "length X = length y \<Longrightarrow> y \<noteq> [] \<Longrightarrow> ''__proto__'' \<notin> key_of ` set y \<Longrightarrow>
     \<exists>node. gini_buildTree engine md mss X y d fis = Inr node
            \<and> predicts_within (key_of ` set y) node"
proof (induction "md - d" arbitrary: X y d)
  case 0
  then have "\<not> d < md" by simp
  with gini_buildTree_shape[of engine md mss X y d fis]
  have "gini_buildTree engine md mss X y d fis = leaf_for engine y" by auto
  with leaf_for_nonempty[OF engine "0.prems"(2,3)] show ?case by auto
next
  case (Suc n)
  from gini_buildTree_shape[of engine md mss X y d fis] show ?case
  proof (elim disjE exE conjE)
    assume "gini_buildTree engine md mss X y d fis = leaf_for engine y"
    with leaf_for_nonempty[OF engine Suc.prems(2,3)] show ?thesis by auto
  next
    fix f t g
    assume best: "findBestSplit X y fis = Some (f, t, g)" and d: "d < md"
      and eq: "gini_buildTree engine md mss X y d fis =
             (case gini_buildTree engine md mss (map (\<lambda>i. X ! i) (fst (split_indices X f t)))
                     (map (label_at y) (fst (split_indices X f t))) (d + 1) fis of
                Inl e \<Rightarrow> Inl e
              | Inr l \<Rightarrow>
                  (case gini_buildTree engine md mss (map (\<lambda>i. X ! i) (snd (split_indices X f t)))
                          (map (label_at y) (snd (split_indices X f t))) (d + 1) fis of
                     Inl e \<Rightarrow> Inl e
                   | Inr r \<Rightarrow> Inr (TreeNode (Some f) (Some t) (Some l) (Some r) None False)))"
    define li where "li = fst (split_indices X f t)"
    define ri where "ri = snd (split_indices X f t)"
    have n: "n = md - (d + 1)" using Suc.hyps(2) by simp
    have li: "li \<noteq> []" "set li \<subseteq> {0..<length y}"
      using findBestSplit_both_sides(1)[OF best] split_indices_range(1)[of X f t] Suc.prems(1)
      by (simp_all add: li_def)
    have ri: "ri \<noteq> []" "set ri \<subseteq> {0..<length y}"
      using findBestSplit_both_sides(2)[OF best] split_indices_range(2)[of X f t] Suc.prems(1)
      by (simp_all add: ri_def)
    have lsub: "key_of ` set (map (label_at y) li) \<subseteq> key_of ` set y"
      using labels_of_indices[OF li(2)] by (intro image_mono)
    have rsub: "key_of ` set (map (label_at y) ri) \<subseteq> key_of ` set y"
      using labels_of_indices[OF ri(2)] by (intro image_mono)
    have "\<exists>l. gini_buildTree engine md mss (map (\<lambda>i. X ! i) li) (map (label_at y) li) (d + 1) fis = Inr l
              \<and> predicts_within (key_of ` set (map (label_at y) li)) l"
    proof (rule Suc.hyps(1)[OF n])
      show "length (map (\<lambda>i. X ! i) li) = length (map (label_at y) li)" by simp
      show "map (label_at y) li \<noteq> []" using li(1) by simp
      show "''__proto__'' \<notin> key_of ` set (map (label_at y) li)" using lsub Suc.prems(3) by blast
    qed
    then obtain l where l: "gini_buildTree engine md mss (map (\<lambda>i. X ! i) li) (map (label_at y) li) (d + 1) fis = Inr l"
      and lw: "predicts_within (key_of ` set (map (label_at y) li)) l" by blast
    have "\<exists>r. gini_buildTree engine md mss (map (\<lambda>i. X ! i) ri) (map (label_at y) ri) (d + 1) fis = Inr r
              \<and> predicts_within (key_of ` set (map (label_at y) ri)) r"
    proof (rule Suc.hyps(1)[OF n])
      show "length (map (\<lambda>i. X ! i) ri) = length (map (label_at y) ri)" by simp
      show "map (label_at y) ri \<noteq> []" using ri(1) by simp
      show "''__proto__'' \<notin> key_of ` set (map (label_at y) ri)" using rsub Suc.prems(3) by blast
    qed
    then obtain r where r: "gini_buildTree engine md mss (map (\<lambda>i. X ! i) ri) (map (label_at y) ri) (d + 1) fis = Inr r"
      and rw: "predicts_within (key_of ` set (map (label_at y) ri)) r" by blast
    from predicts_within_mono[OF lw lsub] have lw': "predicts_within (key_of ` set y) l" .
    from predicts_within_mono[OF rw rsub] have rw': "predicts_within (key_of ` set y) r" .
    have "gini_buildTree engine md mss X y d fis = Inr (TreeNode (Some f) (Some t) (Some l) (Some r) None False)"
      using eq l r by (simp add: li_def ri_def)
    with lw' rw' show ?thesis by simp
  qed
qed

lemma descend_within:
  "predicts_within L node \<Longrightarrow> \<exists>s \<in> L. descend node x = Inr (Some s)"
  by (induction L node rule: predicts_within.induct) (auto split: option.splits if_splits)

lemma random_index_less: "0 < n \<Longrightarrow> random_index r n < n"
  by (simp add: random_index_def)

lemma draws_props:
  "draws g k n = (idxs, g') \<Longrightarrow> length idxs = k \<and> (0 < n \<longrightarrow> (\<forall>i \<in> set idxs. i < n))"
proof (induction k arbitrary: g idxs g')
  case 0
  then show ?case by simp
next
  case (Suc k)
  obtain rest g2 where r: "draws (\<lambda>i. g (Suc i)) k n = (rest, g2)" by (cases "draws (\<lambda>i. g (Suc i)) k n")
  with Suc.prems have "idxs = random_index (g 0) n # rest"
    by (simp add: draw_def Let_def)
  with Suc.IH[OF r] show ?case by (auto simp: random_index_less)
qed

lemma bootstrap_props:
  assumes "bootstrap g X y = ((bX, bY), g1)"
  shows "length bX = length X" and "length bY = length X"
    and "length y = length X \<Longrightarrow> key_of ` set bY \<subseteq> set y"
proof -
  obtain idxs g2 where d: "draws g (length X) (length X) = (idxs, g2)"
    by (cases "draws g (length X) (length X)")
  with assms have b: "bX = map (\<lambda>i. X ! i) idxs" "bY = map (js_nth y) idxs"
    by (simp_all add: bootstrap_def Let_def)
  from draws_props[OF d] have len: "length idxs = length X"
    and rng: "0 < length X \<longrightarrow> (\<forall>i \<in> set idxs. i < length X)" by simp_all
  show "length bX = length X" "length bY = length X" using b len by simp_all
  show "key_of ` set bY \<subseteq> set y" if "length y = length X"
  proof
    fix k assume "k \<in> key_of ` set bY"
    then obtain i where i: "i \<in> set idxs" "k = key_of (js_nth y i)" using b by auto
    then have "0 < length X" using len by (cases idxs) auto
    with rng i that have "i < length y" by simp
    with i show "k \<in> set y" by (simp add: js_nth_def key_of_def)
  qed
qed

lemma pick_features_length: "length (fst (pick_features g k av)) = k"
proof (induction k arbitrary: g av)
  case 0
  then show ?case by simp
next
  case (Suc k)
  obtain idx g1 where d: "draw g (length av) = (idx, g1)" by (cases "draw g (length av)")
  obtain more g2 where m: "pick_features g1 k (take idx av @ drop (Suc idx) av) = (more, g2)"
    by (cases "pick_features g1 k (take idx av @ drop (Suc idx) av)")
  from Suc.IH[of g1 "take idx av @ drop (Suc idx) av"] m have "length more = k" by simp
  with d m show ?case by (simp add: Let_def)
qed

lemma selectFeatures_length:
  "length (fst (selectFeatures f g n)) = nSelect (maxFeatures f) n"
  by (simp add: selectFeatures_def pick_features_length)

lemma GiniTreeClassifier_fit_root:
  assumes "GiniTreeClassifier_fit engine c X y names = Inr c'"
  shows "\<exists>node. gt_root c' = Some node \<and> gini_invariant (gt_maxDepth c) 0 node
           \<and> ((\<forall>xs. mset (engine xs) = mset xs) \<and> length X = length y
                \<and> ''__proto__'' \<notin> key_of ` set y \<longrightarrow> predicts_within (key_of ` set y) node)"
proof -
  from assms obtain row0 rest where X: "X = row0 # rest"
    by (cases X) (auto simp: GiniTreeClassifier_fit_def)
  with assms obtain node where
    b: "gini_buildTree engine (gt_maxDepth c) (gt_minSamplesSplit c) X y 0 [0..<length row0] = Inr node"
    and c': "gt_root c' = Some node"
    by (auto simp: GiniTreeClassifier_fit_def split: sum.splits)
  have inv: "gini_invariant (gt_maxDepth c) 0 node"
    by (rule gini_built_invariant[OF b]) simp
  have "predicts_within (key_of ` set y) node"
    if "\<forall>xs. mset (engine xs) = mset xs" "length X = length y" "''__proto__'' \<notin> key_of ` set y"
  proof -
    from that(2) X have "y \<noteq> []" by auto
    from gini_built_within[OF that(1,2) this that(3), of "gt_maxDepth c" "gt_minSamplesSplit c" 0
        "[0..<length row0]"] b
    show ?thesis by simp
  qed
  with c' inv show ?thesis by blast
qed

lemma grow_trees_props:
  "grow_trees engine f g k X y names = Inr (ts, subs, g') \<Longrightarrow>
     length ts = k \<and> length subs = k
     \<and> (\<forall>s \<in> set subs. length s = nSelect (maxFeatures f) (length (hd X)))
     \<and> (\<forall>t \<in> set ts. \<exists>node. gt_root t = Some node \<and> gini_invariant (rf_maxDepth f) 0 node
            \<and> ((\<forall>xs. mset (engine xs) = mset xs) \<and> length y = length X
                 \<and> ''__proto__'' \<notin> set y \<longrightarrow> predicts_within (set y) node))"
proof (induction k arbitrary: g ts subs g')
  case 0
  then show ?case by simp
next
  case (Suc k)
  obtain bX bY g1 where b: "bootstrap g X y = ((bX, bY), g1)"
    by (metis prod.collapse)
  from Suc.prems b obtain row0 rest where X: "X = row0 # rest"
    by (cases X) (auto simp: Let_def)
  obtain fs g2 where s: "selectFeatures f g1 (length row0) = (fs, g2)"
    by (cases "selectFeatures f g1 (length row0)")
  define tree0 where "tree0 = GiniTreeClassifier_new (Some (rf_maxDepth f)) (Some (rf_minSamplesSplit f))"
  from Suc.prems b X s obtain tree1 ts1 subs1 where
    fit: "GiniTreeClassifier_fit engine tree0 (map (project fs) bX) bY (project fs names) = Inr tree1"
    and rest: "grow_trees engine f g2 k X y names = Inr (ts1, subs1, g')"
    and ts: "ts = tree1 # ts1" and subs: "subs = fs # subs1"
    by (auto simp: Let_def tree0_def split: sum.splits)
  have md: "gt_maxDepth tree0 = rf_maxDepth f"
    by (simp add: tree0_def GiniTreeClassifier_new_def)
  from GiniTreeClassifier_fit_root[OF fit] obtain node where
    node: "gt_root tree1 = Some node" "gini_invariant (rf_maxDepth f) 0 node"
      "(\<forall>xs. mset (engine xs) = mset xs) \<and> length (map (project fs) bX) = length bY
         \<and> ''__proto__'' \<notin> key_of ` set bY \<longrightarrow> predicts_within (key_of ` set bY) node"
    using md by auto
  have "predicts_within (set y) node"
    if "\<forall>xs. mset (engine xs) = mset xs" "length y = length X" "''__proto__'' \<notin> set y"
  proof -
    from bootstrap_props[OF b] that(2) have "length (map (project fs) bX) = length bY"
      and sub: "key_of ` set bY \<subseteq> set y" by simp_all
    moreover from sub that(3) have "''__proto__'' \<notin> key_of ` set bY" by blast
    ultimately have "predicts_within (key_of ` set bY) node" using node(3) that(1) by blast
    with sub show ?thesis using predicts_within_mono by blast
  qed
  with node have t1: "\<exists>node. gt_root tree1 = Some node \<and> gini_invariant (rf_maxDepth f) 0 node
            \<and> ((\<forall>xs. mset (engine xs) = mset xs) \<and> length y = length X
                 \<and> ''__proto__'' \<notin> set y \<longrightarrow> predicts_within (set y) node)" by blast
  have fsl: "length fs = nSelect (maxFeatures f) (length (hd X))"
    using selectFeatures_length[of f g1 "length row0"] s X by simp
  from Suc.IH[OF rest] t1 fsl show ?case by (auto simp: ts subs)
qed

lemma RandomForestClassifier_fit_props:
  assumes "RandomForestClassifier_fit engine f g X y names = Inr (f', g')"
  shows "length (trees f') = nTrees f" and "length (featureSubsets f') = nTrees f"
    and "nTrees f' = nTrees f" and "rf_classes f' = js_unique y"
    and "rf_maxDepth f' = rf_maxDepth f" and "maxFeatures f' = maxFeatures f"
    and "\<forall>s \<in> set (featureSubsets f'). length s = nSelect (maxFeatures f) (length (hd X))"
    and "\<forall>t \<in> set (trees f'). \<exists>node. gt_root t = Some node \<and> gini_invariant (rf_maxDepth f) 0 node
            \<and> ((\<forall>xs. mset (engine xs) = mset xs) \<and> length y = length X
                 \<and> ''__proto__'' \<notin> set y \<longrightarrow> predicts_within (set y) node)"
proof -
  from assms obtain ts subs where
    g: "grow_trees engine f g (nTrees f) X y names = Inr (ts, subs, g')"
    and f': "f' = f\<lparr>rf_featureNames := names, rf_classes := js_unique y, trees := ts,
                 featureSubsets := subs\<rparr>"
    by (auto simp: RandomForestClassifier_fit_def split: sum.splits)
  from grow_trees_props[OF g] f'
  show "length (trees f') = nTrees f" and "length (featureSubsets f') = nTrees f"
    and "nTrees f' = nTrees f" and "rf_classes f' = js_unique y"
    and "rf_maxDepth f' = rf_maxDepth f" and "maxFeatures f' = maxFeatures f"
    and "\<forall>s \<in> set (featureSubsets f'). length s = nSelect (maxFeatures f) (length (hd X))"
    and "\<forall>t \<in> set (trees f'). \<exists>node. gt_root t = Some node \<and> gini_invariant (rf_maxDepth f) 0 node
            \<and> ((\<forall>xs. mset (engine xs) = mset xs) \<and> length y = length X
                 \<and> ''__proto__'' \<notin> set y \<longrightarrow> predicts_within (set y) node)"
    by simp_all
qed

lemma store_fresh:
  "distinct cs \<Longrightarrow> set cs \<inter> fst ` set acc = {} \<Longrightarrow> ''__proto__'' \<notin> set cs \<Longrightarrow>
     foldl (\<lambda>kvs c. js_put c (h c) kvs) acc cs = acc @ map (\<lambda>c. (c, h c)) cs"
proof (induction cs arbitrary: acc)
  case Nil
  then show ?case by simp
next
  case (Cons c cs)
  from Cons.prems have fresh: "c \<notin> fst ` set acc" and c: "c \<noteq> ''__proto__''" by auto
  have "set cs \<inter> fst ` set (acc @ [(c, h c)]) = {}" using Cons.prems by auto
  with Cons.IH[of "acc @ [(c, h c)]"] Cons.prems c show ?case
    by (simp add: js_put_def upsert_new[OF fresh])
qed

lemma bump_counted:
  assumes "map_of votes k = Some (Val n)" and "k \<noteq> ''__proto__''"
  shows "bump k votes = upsert k (\<lambda>_. Val (n + 1)) votes"
  using assms by (simp add: bump_def js_get_def js_put_def)

lemma cast_votes_tally:
  assumes "\<forall>(i, t) \<in> set its. \<exists>s \<in> fst ` set votes. vote_of f x i t = Inr s"
    and "''__proto__'' \<notin> fst ` set votes" and "Junk \<notin> snd ` set votes"
  shows "\<exists>votes'. cast_votes f x its votes = Inr votes' \<and> map fst votes' = map fst votes
           \<and> (\<forall>c n. map_of votes c = Some (Val n)
                  \<longrightarrow> map_of votes' c = Some (Val (n + tally f x its c)))"
  using assms
proof (induction its arbitrary: votes)
  case Nil
  then show ?case by (simp add: tally_def)
next
  case (Cons it its)
  obtain i t where it: "it = (i, t)" by (cases it)
  from Cons.prems(1) it obtain s where s: "s \<in> fst ` set votes" "vote_of f x i t = Inr s" by auto
  from s(1) obtain v where "map_of votes s = Some v"
    by (metis domD dom_map_of_conv_image_fst)
  moreover from this have "v \<in> snd ` set votes" by (metis map_of_SomeD snd_conv image_eqI)
  ultimately obtain m where m: "map_of votes s = Some (Val m)"
    using Cons.prems(3) by (cases v) auto
  from s(1) Cons.prems(2) have sp: "s \<noteq> ''__proto__''" by blast
  define votes1 where "votes1 = bump s votes"
  have v1: "votes1 = upsert s (\<lambda>_. Val (m + 1)) votes"
    unfolding votes1_def by (rule bump_counted[OF m sp])
  have keys1: "map fst votes1 = map fst votes"
    unfolding v1 by (rule upsert_existing_keys[OF s(1)])
  then have k1: "fst ` set votes1 = fst ` set votes" by (metis set_map)
  with Cons.prems(1) have a1: "\<forall>(i, t) \<in> set its. \<exists>s \<in> fst ` set votes1. vote_of f x i t = Inr s"
    by auto
  from k1 Cons.prems(2) have a2: "''__proto__'' \<notin> fst ` set votes1" by simp
  have "snd ` set votes1 \<subseteq> insert (Val (m + 1)) (snd ` set votes)"
    unfolding v1 by (rule upsert_const_values)
  with Cons.prems(3) have a3: "Junk \<notin> snd ` set votes1" by auto
  from Cons.IH[OF a1 a2 a3] obtain votes' where
    v: "cast_votes f x its votes1 = Inr votes'" "map fst votes' = map fst votes1"
      "\<forall>c n. map_of votes1 c = Some (Val n) \<longrightarrow> map_of votes' c = Some (Val (n + tally f x its c))"
    by blast
  have "map_of votes' c = Some (Val (n + tally f x (it # its) c))"
    if "map_of votes c = Some (Val n)" for c n
  proof (cases "c = s")
    case True
    with that m have "map_of votes1 c = Some (Val (n + 1))"
      by (simp add: v1 map_of_upsert)
    with v(3) have "map_of votes' c = Some (Val (n + 1 + tally f x its c))" by blast
    with True s(2) show ?thesis by (simp add: tally_def it)
  next
    case False
    with that have "map_of votes1 c = Some (Val n)"
      by (simp add: v1 map_of_upsert)
    with v(3) have "map_of votes' c = Some (Val (n + tally f x its c))" by blast
    with False s(2) show ?thesis by (simp add: tally_def it)
  qed
  moreover have "cast_votes f x (it # its) votes = Inr votes'"
    using v(1) s(2) by (simp add: it votes1_def)
  ultimately show ?case using v(2) keys1 by auto
qed

lemma tally_total:
  assumes "distinct cs" and "\<forall>(i, t) \<in> set its. \<exists>s \<in> set cs. vote_of f x i t = Inr s"
  shows "sum_list (map (tally f x its) cs) = length its"
  using assms(2)
proof (induction its)
  case Nil
  then show ?case by (simp add: tally_def)
next
  case (Cons it its)
  obtain i t where it: "it = (i, t)" by (cases it)
  from Cons.prems it obtain s where s: "s \<in> set cs" "vote_of f x i t = Inr s" by auto
  have step: "tally f x (it # its) c = (if c = s then 1 else 0) + tally f x its c" for c
    using s(2) by (simp add: tally_def it)
  have one: "sum_list (map (\<lambda>c. if c = s then 1 else 0) cs) = (1 :: nat)"
    using assms(1) s(1) by (induction cs) auto
  have "sum_list (map (tally f x (it # its)) cs)
          = sum_list (map (\<lambda>c. if c = s then 1 else 0) cs) + sum_list (map (tally f x its) cs)"
    unfolding step[abs_def] by (induction cs) simp_all
  with one Cons show ?case by simp
qed

lemma fitted_votes:
  assumes fit: "RandomForestClassifier_fit engine f g X y names = Inr (f', g')"
    and engine: "\<forall>xs. mset (engine xs) = mset xs"
    and len: "length y = length X" and plain: "''__proto__'' \<notin> set y"
    and it: "(i, t) \<in> set (zip [0..<length (trees f')] (trees f'))"
  shows "\<exists>s \<in> set y. vote_of f' x i t = Inr s"
proof -
  note p = RandomForestClassifier_fit_props[OF fit]
  from it have i: "i < length (trees f')" and t: "t \<in> set (trees f')"
    by (auto simp: set_zip)
  from i p(1,2) have "js_nth (featureSubsets f') i = Some (featureSubsets f' ! i)"
    by (simp add: js_nth_def)
  moreover from p(8) t engine len plain obtain node where
    "gt_root t = Some node" "predicts_within (set y) node" by blast
  moreover from descend_within[OF this(2), of "project (featureSubsets f' ! i) x"]
  obtain s where "s \<in> set y" "descend node (project (featureSubsets f' ! i) x) = Inr (Some s)"
    by blast
  ultimately show ?thesis
    by (auto simp: vote_of_def predictOne_def key_of_null_def)
qed

lemma predictProba_row_fitted:
  assumes fit: "RandomForestClassifier_fit engine f g X y names = Inr (f', g')"
    and engine: "\<forall>xs. mset (engine xs) = mset xs"
    and len: "length y = length X" and pos: "0 < nTrees f" and plain: "''__proto__'' \<notin> set y"
  shows "predictProba_row f' x =
           Inr (map (\<lambda>c. (c, Num (real (votes_for f' x c) / real (nTrees f')))) (rf_classes f'))"
    and "sum_list (map (votes_for f' x) (rf_classes f')) = nTrees f'"
proof -
  note p = RandomForestClassifier_fit_props[OF fit]
  define cs where "cs = rf_classes f'"
  define its where "its = zip [0..<length (trees f')] (trees f')"
  define votes0 where "votes0 = foldl (\<lambda>votes c. js_put c (Val 0 :: nat or_junk) votes) [] cs"
  have dcs: "distinct cs" and scs: "set cs = set y"
    by (simp_all add: cs_def p(4) distinct_js_unique set_js_unique)
  from plain scs have pcs: "''__proto__'' \<notin> set cs" by simp
  have v0: "votes0 = map (\<lambda>c. (c, Val 0)) cs"
    unfolding votes0_def using store_fresh[OF dcs _ pcs, of "[]" "\<lambda>_. Val 0 :: nat or_junk"] by simp
  have all: "\<forall>(i, t) \<in> set its. \<exists>s \<in> set cs. vote_of f' x i t = Inr s"
    using fitted_votes[OF fit engine len plain] by (auto simp: its_def scs)
  then have a1: "\<forall>(i, t) \<in> set its. \<exists>s \<in> fst ` set votes0. vote_of f' x i t = Inr s"
    by (simp add: v0 image_image)
  have a2: "''__proto__'' \<notin> fst ` set votes0" using pcs by (simp add: v0 image_image)
  have a3: "Junk \<notin> snd ` set votes0" by (auto simp: v0)
  from cast_votes_tally[OF a1 a2 a3] obtain votes' where
    cv: "cast_votes f' x its votes0 = Inr votes'"
    and tl: "\<forall>c n. map_of votes0 c = Some (Val n)
               \<longrightarrow> map_of votes' c = Some (Val (n + tally f' x its c))"
    by blast
  have m0: "map_of votes0 c = Some (Val 0)" if "c \<in> set cs" for c
    using that by (simp add: v0 map_of_map_restrict)
  have vf: "votes_for f' x c = tally f' x its c" for c
    by (simp add: votes_for_def its_def)
  have mv: "map_of votes' c = Some (Val (votes_for f' x c))" if "c \<in> set cs" for c
    using tl m0[OF that] by (simp add: vf)
  have n: "0 < nTrees f'" using pos p(3) by simp
  define P where "P = (\<lambda>c. vote_share (js_get votes' c) (nTrees f'))"
  have Pc: "P c = Num (real (votes_for f' x c) / real (nTrees f'))" if "c \<in> set cs" for c
    using mv[OF that] n by (simp add: P_def vote_share_def js_get_def)
  have "predictProba_row f' x = Inr (foldl (\<lambda>probs c. js_put c (P c) probs) [] cs)"
    unfolding predictProba_row_def Let_def cs_def[symmetric] its_def[symmetric] votes0_def[symmetric]
    by (simp add: cv P_def)
  also have "foldl (\<lambda>probs c. js_put c (P c) probs) [] cs = map (\<lambda>c. (c, P c)) cs"
    using store_fresh[OF dcs _ pcs, of "[]" P] by simp
  also have "\<dots> = map (\<lambda>c. (c, Num (real (votes_for f' x c) / real (nTrees f')))) cs"
    using Pc by simp
  finally show "predictProba_row f' x =
           Inr (map (\<lambda>c. (c, Num (real (votes_for f' x c) / real (nTrees f')))) (rf_classes f'))"
    by (simp add: cs_def)
  have "sum_list (map (tally f' x its) cs) = length its"
    by (rule tally_total[OF dcs all])
  then show "sum_list (map (votes_for f' x) (rf_classes f')) = nTrees f'"
    using p(1,3) by (simp add: vf[abs_def] cs_def its_def)
qed

text \<open>
  C3 (as amended). For a forest of at least one tree that \<^verbatim>\<open>fit\<close> has trained on a
  matrix \<open>X\<close> and as many labels \<open>y\<close>, none of them the string \<^verbatim>\<open>__proto__\<close>, the classes
  are the distinct labels, and \<^verbatim>\<open>predictProba\<close> gives every row the object whose keys are
  the classes, each with its number of votes divided by the tree count: 0 for a class
  without votes. The values of a row add up to 1. (Where a tally of the training holds a
  count that is no number, as it does for a label like ``constructor'', the order in which
  the engine sorts its entries is any permutation.)
\<close>

theorem predictProba_distribution:
  assumes "RandomForestClassifier_fit engine f g X y names = Inr (f', g')"
    and "\<forall>xs. mset (engine xs) = mset xs"
    and "length y = length X" and "0 < nTrees f" and "''__proto__'' \<notin> set y"
  shows "rf_classes f' = js_unique y \<and> set (rf_classes f') = set y \<and> nTrees f' = nTrees f
         \<and> predictProba f' rows =
             Inr (map (\<lambda>x. map (\<lambda>c. (c, Num (real (votes_for f' x c) / real (nTrees f'))))
                            (rf_classes f')) rows)
         \<and> (\<forall>x. sum_list (map (\<lambda>c. real (votes_for f' x c) / real (nTrees f')) (rf_classes f')) = 1)"
proof -
  note p = RandomForestClassifier_fit_props[OF assms(1)]
  have n: "0 < nTrees f'" using assms(4) p(3) by simp
  have "sum_list (map (\<lambda>c. real (votes_for f' x c) / real (nTrees f')) (rf_classes f')) = 1" for x
  proof -
    have "sum_list (map (\<lambda>c. real (votes_for f' x c) / real (nTrees f')) cs)
            = real (sum_list (map (votes_for f' x) cs)) / real (nTrees f')" for cs
      by (induction cs) (simp_all add: add_divide_distrib)
    with predictProba_row_fitted(2)[OF assms, of x] n show ?thesis by simp
  qed
  moreover have "predictProba f' rows =
             Inr (map (\<lambda>x. map (\<lambda>c. (c, Num (real (votes_for f' x c) / real (nTrees f'))))
                            (rf_classes f')) rows)"
    unfolding predictProba_def
    by (rule map_throwing_all) (simp add: predictProba_row_fitted(1)[OF assms])
  ultimately show ?thesis using p(3,4) by (simp add: set_js_unique)
qed

lemma tiny_bootstrap:
  "bootstrap (\<lambda>i. i) [[1], [2]] [''budget'', ''premium'']
     = (([[1], [2]], [Some ''budget'', Some ''premium'']), \<lambda>i. Suc (Suc i))"
  by (simp add: bootstrap_def draw_def random_index_def js_nth_def Let_def numeral_2_eq_2)

lemma tiny_select:
  "selectFeatures tiny_forest (\<lambda>i. Suc (Suc i)) 1 = ([Some 0], \<lambda>i. Suc (Suc (Suc i)))"
  by (simp add: selectFeatures_def nSelect_def tiny_forest_def RandomForestClassifier_new_def
      draw_def random_index_def js_nth_def Let_def)

lemma tiny_counts:
  "class_counts [Some ''budget'', Some ''premium''] = [(''budget'', Val 1), (''premium'', Val 1)]"
  "class_counts [Some ''budget''] = [(''budget'', Val 1)]"
  "class_counts [Some ''premium''] = [(''premium'', Val 1)]"
  by (simp_all add: class_counts_def key_of_def object_simps)

lemma tiny_gini:
  "gini [Some ''budget'', Some ''premium''] = Num (1 / 2)"
  "gini [Some ''budget''] = Num 0" "gini [Some ''premium''] = Num 0"
  unfolding gini_def tiny_counts by (simp_all add: Let_def js_sub_def object_simps)

lemma tiny_split:
  "findBestSplit [[Some 1], [Some 2]] [Some ''budget'', Some ''premium''] [0]
     = Some (0, 3 / 2, Num (1 / 2))"
  unfolding findBestSplit_def tiny_gini
  by (simp add: candidate_thresholds_def feature_at_def js_nth_def js_unique_def try_split_def
      split_indices_def le_threshold_def label_at_def tiny_gini best_gain_def js_sub_def Let_def
      upt_rec[of 0])

lemma tiny_leaf:
  "leaf_for engine [Some ''budget''] = Inr (TreeNode None None None None (Some ''budget'') True)"
  "leaf_for engine [Some ''premium''] = Inr (TreeNode None None None None (Some ''premium'') True)"
  unfolding leaf_for_def majorityClass_def tiny_counts
  by (simp_all add: by_count_desc_def js_entries_single)

lemma single_label_tree:
  "gini_buildTree engine md mss X [Some ''budget''] d fis
     = Inr (TreeNode None None None None (Some ''budget'') True)"
  "gini_buildTree engine md mss X [Some ''premium''] d fis
     = Inr (TreeNode None None None None (Some ''premium'') True)"
  by (subst gini_buildTree.simps, simp add: js_unique_def tiny_leaf)+

lemma tiny_tree:
  "gini_buildTree engine 5 2 [[Some 1], [Some 2]] [Some ''budget'', Some ''premium''] 0 [0]
     = Inr (TreeNode (Some 0) (Some (3 / 2))
              (Some (TreeNode None None None None (Some ''budget'') True))
              (Some (TreeNode None None None None (Some ''premium'') True)) None False)"
  by (subst gini_buildTree.simps)
     (simp add: tiny_split js_unique_def Let_def split_indices_def le_threshold_def feature_at_def
        js_nth_def label_at_def upt_rec[of 0] single_label_tree)

lemma tiny_fit:
  "RandomForestClassifier_fit engine tiny_forest (\<lambda>i. i) [[1], [2]] [''budget'', ''premium'']
     [''age'']
     = Inr (tiny_forest_fitted, \<lambda>i. Suc (Suc (Suc i)))"
  unfolding RandomForestClassifier_fit_def
  apply (simp add: tiny_forest_def RandomForestClassifier_new_def)
  apply (simp add: tiny_bootstrap tiny_select[unfolded tiny_forest_def RandomForestClassifier_new_def, simplified])
  apply (simp add: project_def js_nth_def GiniTreeClassifier_fit_def GiniTreeClassifier_new_def tiny_tree
      js_unique_def tiny_forest_fitted_def tiny_forest_def RandomForestClassifier_new_def)
  done

lemma tiny_votes:
  "votes_for tiny_forest_fitted [1] ''budget'' = 1" "votes_for tiny_forest_fitted [1] ''premium'' = 0"
  by (simp_all add: votes_for_def tally_def tiny_forest_fitted_def vote_of_def js_nth_def
      predictOne_def project_def feature_at_def le_threshold_def num_of_null_def key_of_null_def)

lemma empty_fit:
  "RandomForestClassifier_fit engine empty_forest (\<lambda>i. 0) [[1]] [''budget''] [''age'']
     = Inr (empty_forest_fitted, \<lambda>i. 0)"
  by (simp add: RandomForestClassifier_fit_def empty_forest_def RandomForestClassifier_new_def
      empty_forest_fitted_def js_unique_def)

text \<open>
  C3 as stated fails for a forest of no trees: \<^verbatim>\<open>fit\<close> trains it, and every probability
  is 0 / 0, which is \<^verbatim>\<open>NaN\<close> and adds up to no 1.
\<close>

theorem no_trees_counterexample:
  "RandomForestClassifier_fit (\<lambda>entries. entries) empty_forest (\<lambda>i. 0) [[1]] [''budget''] [''age'']
     = Inr (empty_forest_fitted, \<lambda>i. 0)
   \<and> predictProba empty_forest_fitted [[1]] = Inr [[(''budget'', NaN)]]"
  by (simp add: empty_fit predictProba_def predictProba_row_def empty_forest_fitted_def
      vote_share_def object_simps)

text \<open>
  A class named \<^verbatim>\<open>__proto__\<close> gets no entry: in the forest of one tree, with that class
  added to its classes, the row 1 gets ``budget'' 1 and ``premium'' 0 and nothing else.
\<close>

lemma proto_class_has_no_entry:
  "predictProba (tiny_forest_fitted\<lparr>rf_classes := [''budget'', ''__proto__'', ''premium'']\<rparr>) [[1]]
     = Inr [[(''budget'', Num 1), (''premium'', Num 0)]]"
  by (simp add: predictProba_def predictProba_row_def tiny_forest_fitted_def vote_of_def js_nth_def
      predictOne_def project_def feature_at_def le_threshold_def num_of_null_def key_of_null_def
      vote_share_def object_simps)

text \<open>C3 at the forest of one tree: the row 1 gets ``budget'' 1 and ``premium'' 0.\<close>

theorem predictProba_distribution_witness:
  "RandomForestClassifier_fit (\<lambda>entries. entries) tiny_forest (\<lambda>i. i) [[1], [2]]
       [''budget'', ''premium''] [''age'']
     = Inr (tiny_forest_fitted, \<lambda>i. Suc (Suc (Suc i)))
   \<and> (\<forall>xs :: (string \<times> nat or_junk) list. mset ((\<lambda>entries. entries) xs) = mset xs)
   \<and> length [''budget'', ''premium''] = length [[1 :: real], [2]] \<and> 0 < nTrees tiny_forest
   \<and> ''__proto__'' \<notin> set [''budget'', ''premium'']
   \<and> rf_classes tiny_forest_fitted = [''budget'', ''premium'']
   \<and> predictProba tiny_forest_fitted [[1]] = Inr [[(''budget'', Num 1), (''premium'', Num 0)]]
   \<and> sum_list (map (\<lambda>c. real (votes_for tiny_forest_fitted [1] c)
                              / real (nTrees tiny_forest_fitted)) (rf_classes tiny_forest_fitted)) = 1"
proof -
  have e: "\<forall>xs :: (string \<times> nat or_junk) list. mset ((\<lambda>entries. entries) xs) = mset xs" by simp
  have l: "length [''budget'', ''premium''] = length [[1 :: real], [2]]" by simp
  have n: "0 < nTrees tiny_forest" by (simp add: tiny_forest_def RandomForestClassifier_new_def)
  have q: "''__proto__'' \<notin> set [''budget'', ''premium'']" by simp
  have c: "rf_classes tiny_forest_fitted = [''budget'', ''premium'']"
    and t: "nTrees tiny_forest_fitted = 1"
    by (simp_all add: tiny_forest_fitted_def)
  from predictProba_distribution[OF tiny_fit e l n q, of "[[1]]"] l n tiny_fit show ?thesis
    by (simp add: tiny_votes c t)
qed

text \<open>
  C2 (as amended). A forest constructed without arguments has 10 trees, \<^verbatim>\<open>maxDepth\<close> 5 and
  \<^verbatim>\<open>minSamplesSplit\<close> 5, and selects features by \<^verbatim>\<open>'sqrt'\<close>; 15, 6 and 3 are what the
  price-sensitivity model passes. In that mode \<^verbatim>\<open>selectFeatures\<close> returns
  \<open>\<lceil>sqrt nFeatures\<rceil>\<close> indices, and so long is every feature subset that \<^verbatim>\<open>fit\<close> stores.
\<close>

theorem forest_defaults:
  "nTrees (RandomForestClassifier_new None None None None) = 10
   \<and> rf_maxDepth (RandomForestClassifier_new None None None None) = 5
   \<and> rf_minSamplesSplit (RandomForestClassifier_new None None None None) = 5
   \<and> maxFeatures (RandomForestClassifier_new None None None None) = ''sqrt''
   \<and> nTrees PriceSensitivityModel_forest = 15 \<and> rf_maxDepth PriceSensitivityModel_forest = 6
   \<and> rf_minSamplesSplit PriceSensitivityModel_forest = 3
   \<and> (maxFeatures f = ''sqrt'' \<longrightarrow>
         length (fst (selectFeatures f g nFeatures)) = nat \<lceil>sqrt (real nFeatures)\<rceil>)
   \<and> (maxFeatures f = ''sqrt'' \<and> RandomForestClassifier_fit engine f g X y names = Inr (f', g') \<longrightarrow>
         length (featureSubsets f') = nTrees f
         \<and> (\<forall>s \<in> set (featureSubsets f'). length s = nat \<lceil>sqrt (real (length (hd X)))\<rceil>))"
proof -
  have "length (featureSubsets f') = nTrees f
         \<and> (\<forall>s \<in> set (featureSubsets f'). length s = nat \<lceil>sqrt (real (length (hd X)))\<rceil>)"
    if "maxFeatures f = ''sqrt''" "RandomForestClassifier_fit engine f g X y names = Inr (f', g')"
    using RandomForestClassifier_fit_props(2,7)[OF that(2)] that(1) by (simp add: nSelect_def)
  then show ?thesis
    by (simp add: RandomForestClassifier_new_def PriceSensitivityModel_forest_def
        selectFeatures_length nSelect_def)
qed

text \<open>C2 as stated fails: the defaults of the constructor are not 15, 6 and 3.\<close>

theorem forest_defaults_counterexample:
  "nTrees (RandomForestClassifier_new None None None None) \<noteq> 15
   \<and> rf_maxDepth (RandomForestClassifier_new None None None None) \<noteq> 6
   \<and> rf_minSamplesSplit (RandomForestClassifier_new None None None None) \<noteq> 3"
  by (simp add: RandomForestClassifier_new_def)

lemma ceiling_sqrt_12: "nat \<lceil>sqrt 12\<rceil> = 4"
proof -
  have "3 < sqrt (12 :: real)" by (rule real_less_rsqrt) simp
  moreover have "sqrt (12 :: real) \<le> 4" by (rule real_le_lsqrt) simp_all
  ultimately have "\<lceil>sqrt (12 :: real)\<rceil> = 4" by (simp add: ceiling_eq_iff)
  then show ?thesis by simp
qed

text \<open>C2 at twelve features, and at the forest of one tree on rows of one feature.\<close>

theorem forest_defaults_witness:
  "maxFeatures tiny_forest = ''sqrt''
   \<and> length (fst (selectFeatures tiny_forest (\<lambda>i. i) 12)) = 4
   \<and> RandomForestClassifier_fit (\<lambda>entries. entries) tiny_forest (\<lambda>i. i) [[1], [2]]
         [''budget'', ''premium''] [''age'']
       = Inr (tiny_forest_fitted, \<lambda>i. Suc (Suc (Suc i)))
   \<and> length (featureSubsets tiny_forest_fitted) = 1
   \<and> length (hd (featureSubsets tiny_forest_fitted)) = 1"
proof -
  have m: "maxFeatures tiny_forest = ''sqrt''"
    by (simp add: tiny_forest_def RandomForestClassifier_new_def)
  have n: "nTrees tiny_forest = 1"
    by (simp add: tiny_forest_def RandomForestClassifier_new_def)
  from forest_defaults[of tiny_forest "\<lambda>i. i" 12 "\<lambda>entries. entries" "[[1], [2]]"
      "[''budget'', ''premium'']" "[''age'']" tiny_forest_fitted "\<lambda>i. Suc (Suc (Suc i))"] m tiny_fit
  have s: "length (fst (selectFeatures tiny_forest (\<lambda>i. i) 12)) = 4"
    and l: "length (featureSubsets tiny_forest_fitted) = 1"
    and a: "\<forall>s \<in> set (featureSubsets tiny_forest_fitted). length s = 1"
    by (simp_all add: ceiling_sqrt_12 n)
  from l have "hd (featureSubsets tiny_forest_fitted) \<in> set (featureSubsets tiny_forest_fitted)"
    by (cases "featureSubsets tiny_forest_fitted") simp_all
  with a have "length (hd (featureSubsets tiny_forest_fitted)) = 1" by blast
  with m s l tiny_fit show ?thesis by simp
qed

subsection \<open>Ridge regularisation\<close>

lemma ridge_fold_length:
  "length (foldl (\<lambda>m i. m[i := (m ! i)[i := m ! i ! i + l]]) M is) = length M"
  by (induction "is" arbitrary: M) simp_all

lemma ridge_fold_entry:
  "distinct idxs \<Longrightarrow> set idxs \<subseteq> {..<length M} \<Longrightarrow> i < length M \<Longrightarrow>
     foldl (\<lambda>m i. m[i := (m ! i)[i := m ! i ! i + l]]) M idxs ! i
       = (if i \<in> set idxs then (M ! i)[i := M ! i ! i + l] else M ! i)"
proof (induction idxs arbitrary: M)
  case Nil
  then show ?case by simp
next
  case (Cons a idxs)
  define M1 where "M1 = M[a := (M ! a)[a := M ! a ! a + l]]"
  have len: "length M1 = length M" by (simp add: M1_def)
  have a: "a < length M" "a \<notin> set idxs" using Cons.prems by auto
  have IH: "foldl (\<lambda>m i. m[i := (m ! i)[i := m ! i ! i + l]]) M1 idxs ! i
       = (if i \<in> set idxs then (M1 ! i)[i := M1 ! i ! i + l] else M1 ! i)"
    using Cons.prems by (intro Cons.IH) (simp_all add: len)
  show ?case
  proof (cases "i = a")
    case True
    with a have "M1 ! i = (M ! i)[i := M ! i ! i + l]" by (simp add: M1_def)
    with True a IH show ?thesis by (simp add: M1_def[symmetric])
  next
    case False
    then have "M1 ! i = M ! i" by (simp add: M1_def)
    with False IH show ?thesis by (simp add: M1_def[symmetric])
  qed
qed

lemma add_ridge_entry:
  assumes "i < length M" and "j < length (M ! i)"
  shows "add_ridge l M ! i ! j = M ! i ! j + (if i = j \<and> 1 \<le> i then l else 0)"
proof -
  have "add_ridge l M ! i = (if i \<in> set [1..<length M] then (M ! i)[i := M ! i ! i + l] else M ! i)"
    unfolding add_ridge_def using assms(1) by (intro ridge_fold_entry) auto
  with assms show ?thesis by (auto simp: nth_list_update)
qed

lemma add_ridge_first_row: "0 < length M \<Longrightarrow> add_ridge l M ! 0 = M ! 0"
proof -
  assume "0 < length M"
  then have "add_ridge l M ! 0 = (if 0 \<in> set [1..<length M] then (M ! 0)[0 := M ! 0 ! 0 + l] else M ! 0)"
    unfolding add_ridge_def by (intro ridge_fold_entry) auto
  then show ?thesis by simp
qed

lemma length_add_ridge: "length (add_ridge l M) = length M"
  by (simp add: add_ridge_def ridge_fold_length)

lemma length_featuresToNumeric: "length (featuresToNumeric ft) = 6"
  by (simp add: featuresToNumeric_def)

lemma X_bias_rows:
  "length (X_bias data) = length data" "\<forall>r \<in> set (X_bias data). length r = 7"
  by (auto simp: X_bias_def X_norm_def Let_def normalize_row_def length_featuresToNumeric)

lemma XTX_dims:
  assumes "data \<noteq> []"
  shows "length (XTX data) = 7" and "i < 7 \<Longrightarrow> length (XTX data ! i) = 7"
proof -
  from assms X_bias_rows(1)[of data] obtain b0 rest where b: "X_bias data = b0 # rest"
    by (cases "X_bias data") auto
  with X_bias_rows(2)[of data] have l: "length b0 = 7" by simp
  have t: "transpose_matrix (X_bias data) = map (\<lambda>colIdx. map (\<lambda>r. r ! colIdx) (X_bias data)) [0..<7]"
    by (simp add: transpose_matrix_def b l)
  then obtain a0 arest where a: "transpose_matrix (X_bias data) = a0 # arest"
    by (simp add: upt_rec[of 0 7])
  have len: "length (transpose_matrix (X_bias data)) = 7" by (simp add: t)
  have m: "XTX data = map (\<lambda>i. map (\<lambda>j. foldl (\<lambda>s k. s + transpose_matrix (X_bias data) ! i ! k
                                                     * X_bias data ! k ! j) 0 [0..<length a0])
                               [0..<7]) [0..<7]"
    unfolding XTX_def matMul_def using a b l len by simp
  show "length (XTX data) = 7" by (simp add: m)
  show "length (XTX data ! i) = 7" if "i < 7" using that by (simp add: m)
qed

text \<open>
  C6. \<^verbatim>\<open>train\<close> adds 0.01 to the diagonal entries 1 to 6 of the 7 by 7 matrix \<open>X\<^sup>T X\<close>, the
  entries of the six feature weights, and to nothing else: the row and the column of the
  bias, index 0, stay as they are. The matrix so changed is the one that is inverted for
  the coefficients that \<^verbatim>\<open>train\<close> stores.
\<close>

theorem ridge_on_feature_diagonal:
  assumes "2 \<le> length data"
  shows "length (XTX data) = 7 \<and> length (XTX_regularized data) = 7
         \<and> (\<forall>i<7. \<forall>j<7. XTX_regularized data ! i ! j
                          = XTX data ! i ! j + (if i = j \<and> 1 \<le> i then 1 / 100 else 0))
         \<and> XTX_regularized data ! 0 = XTX data ! 0
         \<and> (\<exists>stats m'. LinearRegressionModel_train m data = Inr (stats, m')
               \<and> bias m' = matVecMul (invertMatrix (XTX_regularized data)) (XTy data) ! 0
               \<and> weights m' = Some (drop 1 (matVecMul (invertMatrix (XTX_regularized data))
                                                (XTy data))))"
proof -
  from assms have ne: "data \<noteq> []" by auto
  note d = XTX_dims[OF ne]
  have "XTX_regularized data ! i ! j = XTX data ! i ! j + (if i = j \<and> 1 \<le> i then 1 / 100 else 0)"
    if "i < 7" "j < 7" for i j
    unfolding XTX_regularized_def using that d by (intro add_ridge_entry) simp_all
  moreover have "XTX_regularized data ! 0 = XTX data ! 0"
    unfolding XTX_regularized_def using d(1) by (intro add_ridge_first_row) simp
  moreover have "length (XTX_regularized data) = 7"
    by (simp add: XTX_regularized_def length_add_ridge d(1))
  moreover have "\<exists>stats m'. LinearRegressionModel_train m data = Inr (stats, m')
               \<and> bias m' = matVecMul (invertMatrix (XTX_regularized data)) (XTy data) ! 0
               \<and> weights m' = Some (drop 1 (matVecMul (invertMatrix (XTX_regularized data))
                                                (XTy data)))"
    using assms by (simp add: LinearRegressionModel_train_def Let_def theta_def)
  ultimately show ?thesis using d(1) by blast
qed

text \<open>C6 at the two observations: the bias entry is kept, a weight entry gains 0.01.\<close>

theorem ridge_on_feature_diagonal_witness:
  "(2 :: nat) \<le> length [wet_monday, dry_friday]
   \<and> length (XTX_regularized [wet_monday, dry_friday]) = 7
   \<and> XTX_regularized [wet_monday, dry_friday] ! 0 ! 0 = XTX [wet_monday, dry_friday] ! 0 ! 0
   \<and> XTX_regularized [wet_monday, dry_friday] ! 1 ! 1
       = XTX [wet_monday, dry_friday] ! 1 ! 1 + 1 / 100
   \<and> XTX_regularized [wet_monday, dry_friday] ! 6 ! 6
       = XTX [wet_monday, dry_friday] ! 6 ! 6 + 1 / 100
   \<and> XTX_regularized [wet_monday, dry_friday] ! 1 ! 0 = XTX [wet_monday, dry_friday] ! 1 ! 0
   \<and> XTX_regularized [wet_monday, dry_friday] ! 0 ! 1 = XTX [wet_monday, dry_friday] ! 0 ! 1
   \<and> (\<exists>stats m'. LinearRegressionModel_train LinearRegressionModel_new [wet_monday, dry_friday]
                     = Inr (stats, m')
          \<and> weights m' = Some (drop 1 (matVecMul
                (invertMatrix (XTX_regularized [wet_monday, dry_friday]))
                (XTy [wet_monday, dry_friday]))))"
proof -
  have h: "(2 :: nat) \<le> length [wet_monday, dry_friday]" by simp
  from ridge_on_feature_diagonal[OF h, of LinearRegressionModel_new]
  have len: "length (XTX_regularized [wet_monday, dry_friday]) = 7"
    and e: "\<forall>i<7. \<forall>j<7. XTX_regularized [wet_monday, dry_friday] ! i ! j
              = XTX [wet_monday, dry_friday] ! i ! j + (if i = j \<and> 1 \<le> i then 1 / 100 else 0)"
    and t: "\<exists>stats m'. LinearRegressionModel_train LinearRegressionModel_new [wet_monday, dry_friday]
                     = Inr (stats, m')
          \<and> bias m' = matVecMul (invertMatrix (XTX_regularized [wet_monday, dry_friday]))
                          (XTy [wet_monday, dry_friday]) ! 0
          \<and> weights m' = Some (drop 1 (matVecMul
                (invertMatrix (XTX_regularized [wet_monday, dry_friday]))
                (XTy [wet_monday, dry_friday])))"
    by blast+
  have e': "XTX_regularized [wet_monday, dry_friday] ! i ! j
              = XTX [wet_monday, dry_friday] ! i ! j + (if i = j \<and> 1 \<le> i then 1 / 100 else 0)"
    if "i < 7" "j < 7" for i j using e that by blast
  from t obtain stats m' where
    "LinearRegressionModel_train LinearRegressionModel_new [wet_monday, dry_friday] = Inr (stats, m')"
    "weights m' = Some (drop 1 (matVecMul
                (invertMatrix (XTX_regularized [wet_monday, dry_friday]))
                (XTy [wet_monday, dry_friday])))" by blast
  then have t': "\<exists>stats m'. LinearRegressionModel_train LinearRegressionModel_new [wet_monday, dry_friday]
                     = Inr (stats, m')
          \<and> weights m' = Some (drop 1 (matVecMul
                (invertMatrix (XTX_regularized [wet_monday, dry_friday]))
                (XTy [wet_monday, dry_friday])))" by blast
  show ?thesis
    using h len e'[of 0 0] e'[of 1 1] e'[of 6 6] e'[of 1 0] e'[of 0 1] t' by simp
qed

subsection \<open>Properties of all the models\<close>

lemma train_stores:
  "dt_tree (snd (DecisionTreeClassifier_train shuffle m rows feats target))
     = (case buildTree (fst (trainTestSplit shuffle rows (2 / 10))) feats target 0 (dt_maxDepth m) of
          Inl e \<Rightarrow> dt_tree m
        | Inr t \<Rightarrow> Some t)"
  by (simp add: DecisionTreeClassifier_train_def Let_def split: prod.splits sum.splits)

lemma train_returns:
  "fst (DecisionTreeClassifier_train shuffle m rows feats target) = Inr res \<Longrightarrow>
     \<exists>t. buildTree (fst (trainTestSplit shuffle rows (2 / 10))) feats target 0 (dt_maxDepth m) = Inr t"
  by (auto simp: DecisionTreeClassifier_train_def Let_def split: prod.splits sum.splits)

text \<open>
  C4. Every tree that training produces is well formed. For the ID3 tree that
  \<^verbatim>\<open>buildTree\<close> returns when it is called at depth 0, which it does for all rows with
  ordinary values, and so for the tree that \<^verbatim>\<open>train\<close> stores, and for the threshold tree
  that the Gini \<^verbatim>\<open>buildTree\<close> returns, and so for every tree of a fitted forest: no node is
  deeper than \<^verbatim>\<open>maxDepth\<close>, a node that is not a leaf has at least two children under
  distinct keys, and a node is a leaf exactly when it has no children. After \<^verbatim>\<open>train\<close> the
  classifier holds such a tree, or, where \<^verbatim>\<open>buildTree\<close> has thrown, the tree it held
  before.
\<close>

theorem trained_trees_well_formed:
  "(\<forall>t. buildTree data feats target 0 md = Inr t \<longrightarrow> tree_invariant md 0 t)
   \<and> (plain_values data feats \<longrightarrow> (\<exists>t. buildTree data feats target 0 md = Inr t))
   \<and> (\<forall>t. dt_tree (snd (DecisionTreeClassifier_train shuffle m rows feats target)) = Some t
          \<longrightarrow> tree_invariant (dt_maxDepth m) 0 t \<or> dt_tree m = Some t)
   \<and> (\<forall>res. fst (DecisionTreeClassifier_train shuffle m rows feats target) = Inr res
          \<longrightarrow> (\<exists>t. dt_tree (snd (DecisionTreeClassifier_train shuffle m rows feats target)) = Some t
                   \<and> tree_invariant (dt_maxDepth m) 0 t))
   \<and> (\<forall>node. gini_buildTree engine md mss X y 0 fis = Inr node \<longrightarrow> gini_invariant md 0 node)
   \<and> (\<forall>f' g'. RandomForestClassifier_fit engine f g FX Fy names = Inr (f', g') \<longrightarrow>
          (\<forall>t \<in> set (trees f'). \<exists>node. gt_root t = Some node
                                     \<and> gini_invariant (rf_maxDepth f) 0 node))"
proof (intro conjI allI impI)
  fix t
  assume "buildTree data feats target 0 md = Inr t"
  then show "tree_invariant md 0 t" by (rule buildTree_invariant) simp
next
  assume "plain_values data feats"
  then show "\<exists>t. buildTree data feats target 0 md = Inr t" by (rule buildTree_returns)
next
  fix t
  assume s: "dt_tree (snd (DecisionTreeClassifier_train shuffle m rows feats target)) = Some t"
  show "tree_invariant (dt_maxDepth m) 0 t \<or> dt_tree m = Some t"
  proof (cases "buildTree (fst (trainTestSplit shuffle rows (2 / 10))) feats target 0 (dt_maxDepth m)")
    case (Inl e)
    with s show ?thesis by (simp add: train_stores)
  next
    case (Inr u)
    with s have "u = t" by (simp add: train_stores)
    with Inr buildTree_invariant[of _ feats target 0 "dt_maxDepth m" t] show ?thesis by simp
  qed
next
  fix res
  assume "fst (DecisionTreeClassifier_train shuffle m rows feats target) = Inr res"
  from train_returns[OF this] obtain t where
    t: "buildTree (fst (trainTestSplit shuffle rows (2 / 10))) feats target 0 (dt_maxDepth m) = Inr t"
    by blast
  then have "dt_tree (snd (DecisionTreeClassifier_train shuffle m rows feats target)) = Some t"
    by (simp add: train_stores)
  moreover from t have "tree_invariant (dt_maxDepth m) 0 t" by (rule buildTree_invariant) simp
  ultimately show "\<exists>t. dt_tree (snd (DecisionTreeClassifier_train shuffle m rows feats target)) = Some t
                   \<and> tree_invariant (dt_maxDepth m) 0 t" by blast
next
  fix node
  assume "gini_buildTree engine md mss X y 0 fis = Inr node"
  then show "gini_invariant md 0 node" by (rule gini_built_invariant) simp
next
  fix f' g'
  assume "RandomForestClassifier_fit engine f g FX Fy names = Inr (f', g')"
  from RandomForestClassifier_fit_props(8)[OF this]
  show "\<forall>t \<in> set (trees f'). \<exists>node. gt_root t = Some node \<and> gini_invariant (rf_maxDepth f) 0 node"
    by blast
qed

text \<open>C4 at the tree of the two sales and at the forest of one tree.\<close>

theorem trained_trees_well_formed_witness:
  "buildTree coffee_rows [''Day''] ''Item'' 0 5 = Inr coffee_tree
   \<and> plain_values coffee_rows [''Day'']
   \<and> tree_invariant 5 0 coffee_tree
   \<and> (\<exists>res. fst (DecisionTreeClassifier_train (\<lambda>rows. rows) (DecisionTreeClassifier_new None)
                      coffee_rows [''Day''] ''Item'') = Inr res)
   \<and> (\<exists>t. dt_tree (snd (DecisionTreeClassifier_train (\<lambda>rows. rows) (DecisionTreeClassifier_new None)
                            coffee_rows [''Day''] ''Item'')) = Some t
          \<and> tree_invariant 5 0 t)
   \<and> gini_buildTree (\<lambda>entries. entries) 5 2 [[Some 1], [Some 2]]
         [Some ''budget'', Some ''premium''] 0 [0]
       = Inr (TreeNode (Some 0) (Some (3 / 2))
                (Some (TreeNode None None None None (Some ''budget'') True))
                (Some (TreeNode None None None None (Some ''premium'') True)) None False)
   \<and> gini_invariant 5 0
        (TreeNode (Some 0) (Some (3 / 2))
           (Some (TreeNode None None None None (Some ''budget'') True))
           (Some (TreeNode None None None None (Some ''premium'') True)) None False)
   \<and> RandomForestClassifier_fit (\<lambda>entries. entries) tiny_forest (\<lambda>i. i) [[1], [2]]
         [''budget'', ''premium''] [''age'']
       = Inr (tiny_forest_fitted, \<lambda>i. Suc (Suc (Suc i)))
   \<and> (\<exists>node. gt_root (hd (trees tiny_forest_fitted)) = Some node \<and> gini_invariant 5 0 node)"
proof -
  have d: "rf_maxDepth tiny_forest = 5"
    by (simp add: tiny_forest_def RandomForestClassifier_new_def)
  have md: "dt_maxDepth (DecisionTreeClassifier_new None) = 5"
    by (simp add: DecisionTreeClassifier_new_def)
  have pl: "plain_values coffee_rows [''Day'']"
    by (simp add: plain_values_def coffee_rows_def object_simps)
  have tr: "\<exists>res. fst (DecisionTreeClassifier_train (\<lambda>rows. rows) (DecisionTreeClassifier_new None)
                      coffee_rows [''Day''] ''Item'') = Inr res"
    by (simp add: coffee_train)
  from trained_trees_well_formed[of coffee_rows "[''Day'']" "''Item''" 5 "\<lambda>rows. rows"
      "DecisionTreeClassifier_new None" coffee_rows "\<lambda>entries. entries" 2 "[[Some 1], [Some 2]]"
      "[Some ''budget'', Some ''premium'']" "[0]" tiny_forest "\<lambda>i. i" "[[1], [2]]"
      "[''budget'', ''premium'']" "[''age'']"]
  have a: "\<forall>t. buildTree coffee_rows [''Day''] ''Item'' 0 5 = Inr t \<longrightarrow> tree_invariant 5 0 t"
    and a2: "\<forall>res. fst (DecisionTreeClassifier_train (\<lambda>rows. rows) (DecisionTreeClassifier_new None)
                          coffee_rows [''Day''] ''Item'') = Inr res
          \<longrightarrow> (\<exists>t. dt_tree (snd (DecisionTreeClassifier_train (\<lambda>rows. rows)
                                     (DecisionTreeClassifier_new None) coffee_rows [''Day''] ''Item''))
                        = Some t
                   \<and> tree_invariant (dt_maxDepth (DecisionTreeClassifier_new None)) 0 t)"
    and b: "\<forall>node. gini_buildTree (\<lambda>entries. entries) 5 2 [[Some 1], [Some 2]]
                [Some ''budget'', Some ''premium''] 0 [0]
                = Inr node \<longrightarrow> gini_invariant 5 0 node"
    and c: "\<forall>f' g'. RandomForestClassifier_fit (\<lambda>entries. entries) tiny_forest (\<lambda>i. i) [[1], [2]]
                [''budget'', ''premium''] [''age''] = Inr (f', g') \<longrightarrow>
              (\<forall>t \<in> set (trees f'). \<exists>node. gt_root t = Some node
                                     \<and> gini_invariant (rf_maxDepth tiny_forest) 0 node)"
    by blast+
  from a coffee_build have "tree_invariant 5 0 coffee_tree" by blast
  moreover from a2 tr md
  have "\<exists>t. dt_tree (snd (DecisionTreeClassifier_train (\<lambda>rows. rows) (DecisionTreeClassifier_new None)
                            coffee_rows [''Day''] ''Item'')) = Some t
          \<and> tree_invariant 5 0 t" by metis
  moreover from b tiny_tree have "gini_invariant 5 0
        (TreeNode (Some 0) (Some (3 / 2))
           (Some (TreeNode None None None None (Some ''budget'') True))
           (Some (TreeNode None None None None (Some ''premium'') True)) None False)"
    by blast
  moreover from c tiny_fit d
  have "\<forall>t \<in> set (trees tiny_forest_fitted). \<exists>node. gt_root t = Some node \<and> gini_invariant 5 0 node"
    by metis
  moreover have "hd (trees tiny_forest_fitted) \<in> set (trees tiny_forest_fitted)"
    by (simp add: tiny_forest_fitted_def)
  ultimately show ?thesis using tiny_tree tiny_fit coffee_build pl tr by blast
qed

text \<open>
  A freshly constructed model throws on every prediction: the ID3 classifier on
  \<^verbatim>\<open>predict\<close> and \<^verbatim>\<open>predictTopN\<close>, the regression model on \<^verbatim>\<open>predict\<close>, the Holt
  forecaster on \<^verbatim>\<open>forecast\<close> and so on \<^verbatim>\<open>getConfidenceIntervals\<close>. The \<^verbatim>\<open>fit\<close> of the
  forecaster and the \<^verbatim>\<open>train\<close> of the regression model throw on fewer than two
  observations before they write anything.
\<close>

lemma fresh_models_throw:
  "DecisionTreeClassifier_predict (DecisionTreeClassifier_new md) sample
     = Inl (Error ''Model not trained yet'')
   \<and> DecisionTreeClassifier_predictTopN engine (DecisionTreeClassifier_new md) sample n
       = Inl (Error ''Model not trained yet'')
   \<and> LinearRegressionModel_predict LinearRegressionModel_new ft = Inl (Error ''Model not trained'')
   \<and> HoltForecaster_forecast (HoltForecaster_new a b) steps
       = (Inl (Error ''Model not fitted''), HoltForecaster_new a b)
   \<and> getConfidenceIntervals (HoltForecaster_new a b) steps conf
       = (Inl (Error ''Model not fitted''), HoltForecaster_new a b)
   \<and> HoltForecaster_fit (HoltForecaster_new a b) [] = Inl (Error ''Need at least 2 data points'')
   \<and> HoltForecaster_fit (HoltForecaster_new a b) [v] = Inl (Error ''Need at least 2 data points'')
   \<and> LinearRegressionModel_train LinearRegressionModel_new []
       = Inl (Error ''Need at least 2 data points to train'')
   \<and> LinearRegressionModel_train LinearRegressionModel_new [d]
       = Inl (Error ''Need at least 2 data points to train'')"
  by (simp add: DecisionTreeClassifier_predict_def DecisionTreeClassifier_predictTopN_def
      DecisionTreeClassifier_new_def LinearRegressionModel_predict_def LinearRegressionModel_new_def
      HoltForecaster_forecast_def getConfidenceIntervals_def HoltForecaster_new_def
      HoltForecaster_fit_def LinearRegressionModel_train_def)

text \<open>
  A \<^verbatim>\<open>train\<close> of the ID3 classifier that throws while it builds the tree leaves the tree
  as it was, so that a classifier without a tree still throws on \<^verbatim>\<open>predict\<close>.
\<close>

lemma failed_build_keeps_untrained:
  assumes "buildTree (fst (trainTestSplit shuffle rows (2 / 10))) feats target 0 (dt_maxDepth m)
             = Inl e"
    and "dt_tree m = None"
  shows "fst (DecisionTreeClassifier_train shuffle m rows feats target) = Inl e"
    and "DecisionTreeClassifier_predict
           (snd (DecisionTreeClassifier_train shuffle m rows feats target)) sample
         = Inl (Error ''Model not trained yet'')"
  using assms
  by (simp_all add: DecisionTreeClassifier_train_def DecisionTreeClassifier_predict_def Let_def
      case_prod_beta)

text \<open>
  A \<^verbatim>\<open>train\<close> that throws while it computes the accuracy has stored the tree, and
  \<^verbatim>\<open>predict\<close> on the classifier it leaves answers from that tree.
\<close>

lemma failed_accuracy_keeps_tree:
  assumes "buildTree (fst (trainTestSplit shuffle rows (2 / 10))) feats target 0 (dt_maxDepth m)
             = Inr t"
    and "calculateAccuracy t (snd (trainTestSplit shuffle rows (2 / 10))) target = Inl e"
  shows "fst (DecisionTreeClassifier_train shuffle m rows feats target) = Inl e"
    and "dt_tree (snd (DecisionTreeClassifier_train shuffle m rows feats target)) = Some t"
    and "DecisionTreeClassifier_predict
           (snd (DecisionTreeClassifier_train shuffle m rows feats target)) sample
         = predict t sample"
  using assms
  by (simp_all add: DecisionTreeClassifier_train_def DecisionTreeClassifier_predict_def Let_def
      case_prod_beta)

text \<open>
  C8. A \<^verbatim>\<open>train\<close> of the ID3 classifier that fails can leave a classifier that predicts.
  Of the three sales, in this order, the first two are the training part and the third is
  the test part. \<^verbatim>\<open>train\<close> stores the tree grown from the two, then computes the accuracy,
  where \<^verbatim>\<open>predict\<close> throws a \<^verbatim>\<open>TypeError\<close> for the day ``constructor'' of the third sale,
  and so \<^verbatim>\<open>train\<close> throws. On the classifier it leaves, freshly constructed before,
  \<^verbatim>\<open>predict\<close> and \<^verbatim>\<open>predictTopN\<close> return a prediction and do not throw.
\<close>

theorem failed_training_leaves_a_tree:
  "dt_tree (DecisionTreeClassifier_new None) = None
   \<and> fst (DecisionTreeClassifier_train (\<lambda>rows. rows) (DecisionTreeClassifier_new None)
            odd_day_rows [''Day''] ''Item'') = Inl TypeError
   \<and> dt_tree (snd (DecisionTreeClassifier_train (\<lambda>rows. rows) (DecisionTreeClassifier_new None)
                      odd_day_rows [''Day''] ''Item'')) = Some coffee_tree
   \<and> DecisionTreeClassifier_predict
        (snd (DecisionTreeClassifier_train (\<lambda>rows. rows) (DecisionTreeClassifier_new None)
                odd_day_rows [''Day''] ''Item''))
        [(''Day'', ''Monday'')]
       = Inr \<lparr>predicted = Some ''Latte'', confidence = 1,
              distribution = Some [(''Latte'', \<lparr>share_count = Val 1, percentage = Num 100\<rparr>)]\<rparr>
   \<and> DecisionTreeClassifier_predictTopN (\<lambda>entries. entries)
        (snd (DecisionTreeClassifier_train (\<lambda>rows. rows) (DecisionTreeClassifier_new None)
                odd_day_rows [''Day''] ''Item''))
        [(''Day'', ''Monday'')] None
       = Inr [\<lparr>entry_label = Some ''Latte'', entry_confidence = Num 100\<rparr>]"
  unfolding odd_day_train
  by (simp add: DecisionTreeClassifier_new_def DecisionTreeClassifier_predict_def
      DecisionTreeClassifier_predictTopN_def predictTopN_def coffee_predictions number_of_def
      js_entries_single)

end
